theory Spec2Isabelle
  imports Complex_Main "HOL-Library.Sublist" "HOL-Library.List_Lexorder"
    "HOL-Library.Product_Lexorder" "HOL-Library.Multiset"
begin

section \<open>Python strings\<close>

text \<open>
  A Python \<open>str\<close> is a sequence of Unicode code points, so a string is a list of
  natural numbers here. The ASCII part of the character tables (\<open>str.upper\<close>,
  \<open>str.isspace\<close>, the class \<open>\s\<close> of \<open>re\<close>) is written out; what the Unicode
  database says about the code points from 128 on is a parameter of every function that
  consults it, so that the results hold whatever these tables contain.
\<close>

type_synonym ustring = "nat list"

record unicode =
  uc_upper :: "nat \<Rightarrow> ustring"
  uc_space :: "nat \<Rightarrow> bool"

definition ascii_only :: unicode where
  "ascii_only = \<lparr>uc_upper = (\<lambda>c. [c]), uc_space = (\<lambda>c. False)\<rparr>"

definition of_ascii :: "string \<Rightarrow> ustring" where
  "of_ascii s = map of_char s"

definition upper_cp :: "unicode \<Rightarrow> nat \<Rightarrow> ustring" where
  "upper_cp U c =
     (if c < 128 then [if 97 \<le> c \<and> c \<le> 122 then c - 32 else c] else uc_upper U c)"

definition py_upper :: "unicode \<Rightarrow> ustring \<Rightarrow> ustring" where
  "py_upper U s = concat (map (upper_cp U) s)"

definition py_isspace :: "unicode \<Rightarrow> nat \<Rightarrow> bool" where
  "py_isspace U c =
     (if c < 128 then c = 32 \<or> (9 \<le> c \<and> c \<le> 13) \<or> (28 \<le> c \<and> c \<le> 31)
      else uc_space U c)"

text \<open>\<open>s.split()\<close>: the maximal runs of non-whitespace, in order; \<open>cur\<close> is the run
  being read.\<close>

fun split_from :: "(nat \<Rightarrow> bool) \<Rightarrow> ustring \<Rightarrow> ustring \<Rightarrow> ustring list" where
  "split_from sp cur [] = (if cur = [] then [] else [cur])"
| "split_from sp cur (c # cs) =
     (if sp c then (if cur = [] then split_from sp [] cs else cur # split_from sp [] cs)
      else split_from sp (cur @ [c]) cs)"

definition py_split :: "unicode \<Rightarrow> ustring \<Rightarrow> ustring list" where
  "py_split U s = split_from (py_isspace U) [] s"

text \<open>\<open>sep.join(parts)\<close>.\<close>

fun py_join :: "ustring \<Rightarrow> ustring list \<Rightarrow> ustring" where
  "py_join sep [] = []"
| "py_join sep [x] = x"
| "py_join sep (x # y # ys) = x @ sep @ py_join sep (y # ys)"

text \<open>\<open>s.replace(old, new)\<close>: the occurrences of \<open>old\<close> are replaced from left to
  right without overlap; an empty \<open>old\<close> matches before every character and at the end.\<close>

fun py_replace :: "ustring \<Rightarrow> ustring \<Rightarrow> ustring \<Rightarrow> ustring" where
  "py_replace old new [] = (if old = [] then new else [])"
| "py_replace old new (c # cs) =
     (if old = [] then new @ c # py_replace old new cs
      else if prefix old (c # cs) then new @ py_replace old new (drop (length old - 1) cs)
      else c # py_replace old new cs)"

text \<open>\<open>old in s\<close>.\<close>

fun py_contains :: "ustring \<Rightarrow> ustring \<Rightarrow> bool" where
  "py_contains old [] = (old = [])"
| "py_contains old (c # cs) = (prefix old (c # cs) \<or> py_contains old cs)"

text \<open>\<open>s.strip()\<close>.\<close>

definition py_strip :: "unicode \<Rightarrow> ustring \<Rightarrow> ustring" where
  "py_strip U s = rev (dropWhile (py_isspace U) (rev (dropWhile (py_isspace U) s)))"

section \<open>normalize\_employers.py and normalize\_jobs.py\<close>

text \<open>The argument of \<open>normalize_string\<close> is any Python value; only whether it is a
  \<open>str\<close> matters.\<close>

datatype pyval = PStr ustring | PNotStr

text \<open>\<open>re.sub(r'[^A-Z0-9\s-]', '', s)\<close> keeps exactly the characters of the class.\<close>

definition employer_class :: "unicode \<Rightarrow> nat \<Rightarrow> bool" where
  "employer_class U c =
     ((65 \<le> c \<and> c \<le> 90) \<or> (48 \<le> c \<and> c \<le> 57) \<or> py_isspace U c \<or> c = 45)"

definition normalize_employers_normalize_string :: "unicode \<Rightarrow> pyval \<Rightarrow> ustring" where
  "normalize_employers_normalize_string U v =
     (case v of
        PNotStr \<Rightarrow> []
      | PStr s \<Rightarrow>
          (let s1 = py_upper U s;
               s2 = filter (employer_class U) s1
           in py_join [32] (py_split U s2)))"

text \<open>\<open>re.sub(r'[^A-Z0-9\s/]', '', s)\<close>.\<close>

definition job_class :: "unicode \<Rightarrow> nat \<Rightarrow> bool" where
  "job_class U c =
     ((65 \<le> c \<and> c \<le> 90) \<or> (48 \<le> c \<and> c \<le> 57) \<or> py_isspace U c \<or> c = 47)"

definition normalize_jobs_normalize_string :: "unicode \<Rightarrow> pyval \<Rightarrow> ustring" where
  "normalize_jobs_normalize_string U v =
     (case v of
        PNotStr \<Rightarrow> []
      | PStr s \<Rightarrow>
          (let s1 = py_upper U s;
               s2 = py_replace [32, 47, 32] [47] s1;
               s3 = py_replace [32, 45, 32] [32] s2;
               s4 = py_replace [44] [32] s3;
               s5 = filter (job_class U) s4
           in py_join [32] (py_split U s5)))"


text \<open>Auxiliary notions for the normalizers: a token of \<open>split\<close>, and the
  characters the two classes keep besides whitespace.\<close>

definition solid :: "(nat \<Rightarrow> bool) \<Rightarrow> ustring \<Rightarrow> bool" where
  "solid sp t = (t \<noteq> [] \<and> (\<forall>c\<in>set t. \<not> sp c))"

definition emp_solid :: "nat \<Rightarrow> bool" where
  "emp_solid c = ((65 \<le> c \<and> c \<le> 90) \<or> (48 \<le> c \<and> c \<le> 57) \<or> c = 45)"

definition job_solid :: "nat \<Rightarrow> bool" where
  "job_solid c = ((65 \<le> c \<and> c \<le> 90) \<or> (48 \<le> c \<and> c \<le> 57) \<or> c = 47)"

text \<open>The employer variant in the words of the specification: uppercase, strip the
  legal-entity tokens as whole words, drop every character outside letters, digits and
  whitespace, collapse whitespace, trim.\<close>

definition spec_boilerplate :: "ustring list" where
  "spec_boilerplate = map of_ascii [''INC'', ''LTD'', ''LIMITED'', ''CORP'', ''CORPORATION'',
     ''THE'', ''OF'', ''AND'']"

definition spec_class :: "unicode \<Rightarrow> nat \<Rightarrow> bool" where
  "spec_class U c = ((65 \<le> c \<and> c \<le> 90) \<or> (48 \<le> c \<and> c \<le> 57) \<or> py_isspace U c)"

definition spec_normalize_employer :: "unicode \<Rightarrow> ustring \<Rightarrow> ustring" where
  "spec_normalize_employer U s =
     (let s1 = py_upper U s;
          ws = filter (\<lambda>w. w \<notin> set spec_boilerplate) (py_split U s1);
          s2 = filter (spec_class U) (py_join [32] ws)
      in py_join [32] (py_split U s2))"

section \<open>Data frames\<close>

text \<open>
  A \<open>float64\<close> cell is a finite value, an infinity or NaN (which pandas also uses for a
  missing value). Finite values are exact rationals: rounding, overflow and the sign of
  zero are not modelled.
\<close>

datatype pyfloat = Fin rat | PInf | NInf | NaN

text \<open>The position of a float in an ascending pandas sort: NaN comes last.\<close>

fun float_key :: "pyfloat \<Rightarrow> nat \<times> rat" where
  "float_key NInf = (0, 0)"
| "float_key (Fin a) = (1, a)"
| "float_key PInf = (2, 0)"
| "float_key NaN = (3, 0)"

text \<open>
  A row of the data frame that flows from \<open>link_persons.py\<close> to the analytics: the
  columns the modelled functions read or assign. Assigning a column that is not there
  yet and overwriting one are the same update; every other column lives in the
  extension of the record.
\<close>

record row =
  first_name :: ustring
  last_name :: ustring
  employer_id :: nat
  job_family :: ustring
  year :: int
  total_comp :: pyfloat
  name_clean :: ustring
  name_freq :: nat
  match_confidence :: ustring
  person_id :: ustring

section \<open>link\_persons.py\<close>

text \<open>\<open>Series.shift(1)\<close>: every value moves one row down, the first row gets a
  missing value.\<close>

definition shift1 :: "'a list \<Rightarrow> 'a option list" where
  "shift1 xs = take (length xs) (None # map Some xs)"

text \<open>\<open>Series.cumsum()\<close>.\<close>

fun cumsum_from :: "nat \<Rightarrow> nat list \<Rightarrow> nat list" where
  "cumsum_from acc [] = []"
| "cumsum_from acc (x # xs) = (acc + x) # cumsum_from (acc + x) xs"

definition cumsum :: "nat list \<Rightarrow> nat list" where
  "cumsum xs = cumsum_from 0 xs"

text \<open>\<open>str(n)\<close> of a non-negative integer: its decimal digits.\<close>

fun py_str_nat :: "nat \<Rightarrow> ustring" where
  "py_str_nat n = (if n < 10 then [48 + n] else py_str_nat (n div 10) @ [48 + n mod 10])"

text \<open>Steps 1 to 3 of \<open>fast_link_persons\<close>: the name key, its frequency, and the
  stable sort on the three columns.\<close>

definition with_name_clean :: "unicode \<Rightarrow> 'a row_scheme \<Rightarrow> 'a row_scheme" where
  "with_name_clean U r =
     r\<lparr>name_clean := py_strip U (py_upper U (first_name r @ [32] @ last_name r))\<rparr>"

definition with_name_freq :: "'a row_scheme list \<Rightarrow> 'a row_scheme \<Rightarrow> 'a row_scheme" where
  "with_name_freq df r =
     r\<lparr>name_freq := length (filter (\<lambda>q. name_clean q = name_clean r) df)\<rparr>"

definition link_key :: "'a row_scheme \<Rightarrow> ustring \<times> int \<times> nat \<times> rat" where
  "link_key r = (name_clean r, year r, float_key (total_comp r))"

definition link_sorted :: "unicode \<Rightarrow> 'a row_scheme list \<Rightarrow> 'a row_scheme list" where
  "link_sorted U df =
     (let df1 = map (with_name_clean U) df;
          df2 = map (with_name_freq df1) df1
      in sort_key link_key df2)"

text \<open>Step 4: the three comparisons with the shifted columns. A comparison with the
  missing value of the first row is false.\<close>

definition should_link :: "'a row_scheme list \<Rightarrow> bool list" where
  "should_link df =
     (let prev_name = shift1 (map name_clean df);
          prev_employer = shift1 (map employer_id df);
          prev_year = shift1 (map year df);
          name_match = map2 (\<lambda>a p. p = Some a) (map name_clean df) prev_name;
          emp_match = map2 (\<lambda>a p. p = Some a) (map employer_id df) prev_employer;
          year_diff = map2 (\<lambda>y p. map_option (\<lambda>q. y - q) p) (map year df) prev_year
      in map2 (\<lambda>(n, e) d. n \<and> e \<and> (case d of None \<Rightarrow> False | Some g \<Rightarrow> g \<le> 2))
           (zip name_match emp_match) year_diff)"

definition person_group_id :: "'a row_scheme list \<Rightarrow> nat list" where
  "person_group_id df = cumsum (map (\<lambda>b. if \<not> b then 1 else 0) (should_link df))"

definition fast_link_persons :: "unicode \<Rightarrow> 'a row_scheme list \<Rightarrow> 'a row_scheme list" where
  "fast_link_persons U df0 =
     (let df = link_sorted U df0
      in map2 (\<lambda>r g. r\<lparr>match_confidence := of_ascii ''High'', person_id := py_str_nat g\<rparr>)
           df (person_group_id df))"

text \<open>The words of the specification: a record starts a chain when it is the first of
  the scan or is not linked to the record just before it.\<close>

definition chain_start :: "'a row_scheme list \<Rightarrow> nat \<Rightarrow> bool" where
  "chain_start out j =
     (j = 0 \<or> \<not> (name_clean (out ! j) = name_clean (out ! (j - 1))
        \<and> employer_id (out ! j) = employer_id (out ! (j - 1))
        \<and> year (out ! j) - year (out ! (j - 1)) \<le> 2))"

definition chain_starts_upto :: "'a row_scheme list \<Rightarrow> nat \<Rightarrow> nat" where
  "chain_starts_upto out i = length (filter (chain_start out) [0..<Suc i])"

text \<open>Reading a decimal numeral back, used to show that \<open>str\<close> is injective.\<close>

definition py_int_of :: "ustring \<Rightarrow> nat" where
  "py_int_of s = foldl (\<lambda>a c. 10 * a + (c - 48)) 0 s"

text \<open>The columns of a row that \<open>fast_link_persons\<close> only carries along.\<close>

definition input_columns ::
  "'a row_scheme \<Rightarrow> ustring \<times> ustring \<times> nat \<times> ustring \<times> int \<times> pyfloat \<times> 'a" where
  "input_columns r =
     (first_name r, last_name r, employer_id r, job_family r, year r, total_comp r, more r)"

text \<open>The name key of a row, as step 1 computes it.\<close>

definition name_key :: "unicode \<Rightarrow> 'a row_scheme \<Rightarrow> ustring" where
  "name_key U r = py_strip U (py_upper U (first_name r @ [32] @ last_name r))"

text \<open>Sample rows for the concrete instances below.\<close>

definition sample_row :: "string \<Rightarrow> string \<Rightarrow> nat \<Rightarrow> int \<Rightarrow> rat \<Rightarrow> row" where
  "sample_row f l e y c = \<lparr>first_name = of_ascii f, last_name = of_ascii l, employer_id = e,
     job_family = [], year = y, total_comp = Fin c, name_clean = [], name_freq = 0,
     match_confidence = [], person_id = []\<rparr>"

definition gap2_rows :: "row list" where
  "gap2_rows = [sample_row ''John'' ''Smith'' 7 1998 136000,
                sample_row ''John'' ''Smith'' 7 1996 125000]"

definition gap3_rows :: "row list" where
  "gap3_rows = [sample_row ''John'' ''Smith'' 7 1996 125000,
                sample_row ''John'' ''Smith'' 7 1999 136000]"

definition sample_rows :: "row list" where
  "sample_rows = [sample_row ''John'' ''Smith'' 7 1998 136000,
                  sample_row ''John'' ''Smith'' 7 1996 125000,
                  sample_row ''Ann'' ''Lee'' 7 1996 120000,
                  sample_row ''John'' ''Smith'' 8 1999 140000,
                  sample_row ''John'' ''Smith'' 8 2002 150000]"

text \<open>Three records of one name: one with another employer between two of the same
  employer, and one with three records of the same employer two years apart.\<close>

definition split_rows :: "row list" where
  "split_rows = [sample_row ''John'' ''Smith'' 7 1996 125000,
                 sample_row ''John'' ''Smith'' 8 1997 130000,
                 sample_row ''John'' ''Smith'' 7 1998 136000]"

definition chain_rows :: "row list" where
  "chain_rows = [sample_row ''John'' ''Smith'' 7 1996 125000,
                 sample_row ''John'' ''Smith'' 7 1998 130000,
                 sample_row ''John'' ''Smith'' 7 2000 136000]"


section \<open>generate\_analytics\_complex.py\<close>

text \<open>Arithmetic of \<open>float64\<close> columns. A division by zero does not raise in numpy: it
  gives an infinity, or NaN for \<open>0 / 0\<close>.\<close>

definition notna :: "pyfloat \<Rightarrow> bool" where
  "notna f = (f \<noteq> NaN)"

fun fl_neg :: "pyfloat \<Rightarrow> pyfloat" where
  "fl_neg (Fin a) = Fin (- a)"
| "fl_neg PInf = NInf"
| "fl_neg NInf = PInf"
| "fl_neg NaN = NaN"

fun fl_add :: "pyfloat \<Rightarrow> pyfloat \<Rightarrow> pyfloat" where
  "fl_add NaN _ = NaN"
| "fl_add _ NaN = NaN"
| "fl_add (Fin a) (Fin b) = Fin (a + b)"
| "fl_add PInf NInf = NaN"
| "fl_add NInf PInf = NaN"
| "fl_add PInf _ = PInf"
| "fl_add _ PInf = PInf"
| "fl_add NInf _ = NInf"
| "fl_add _ NInf = NInf"

definition fl_sub :: "pyfloat \<Rightarrow> pyfloat \<Rightarrow> pyfloat" where
  "fl_sub a b = fl_add a (fl_neg b)"

fun fl_div :: "pyfloat \<Rightarrow> pyfloat \<Rightarrow> pyfloat" where
  "fl_div NaN _ = NaN"
| "fl_div _ NaN = NaN"
| "fl_div (Fin a) (Fin b) =
     (if b = 0 then (if a = 0 then NaN else if 0 < a then PInf else NInf) else Fin (a / b))"
| "fl_div (Fin a) PInf = Fin 0"
| "fl_div (Fin a) NInf = Fin 0"
| "fl_div PInf (Fin b) = (if 0 \<le> b then PInf else NInf)"
| "fl_div NInf (Fin b) = (if 0 \<le> b then NInf else PInf)"
| "fl_div PInf _ = NaN"
| "fl_div NInf _ = NaN"

definition is_finite :: "pyfloat \<Rightarrow> bool" where
  "is_finite f = (case f of Fin a \<Rightarrow> True | _ \<Rightarrow> False)"

text \<open>The median of a group as pandas computes it: missing values are skipped, an
  empty group gives NaN, an even count gives the mean of the two middle values.\<close>

definition py_median :: "pyfloat list \<Rightarrow> pyfloat" where
  "py_median xs =
     (let ys = sort_key float_key (filter notna xs); n = length ys
      in if n = 0 then NaN
         else if odd n then ys ! (n div 2)
         else fl_div (fl_add (ys ! (n div 2)) (ys ! (n div 2 - 1))) (Fin 2))"

text \<open>
  The entries of a metric record that the claims are about. \<open>mean_pay\<close> and the
  quantiles \<open>p50\<close> to \<open>p99\<close> of the pay statistics are left out: nothing below reads
  them. The \<open>employer_id\<close> and the \<open>year\<close> of a metric record are called
  \<open>m_employer_id\<close> and \<open>m_year\<close>, the names without prefix being columns of a row.
  \<open>retention_rate\<close> is the exact quotient that Python's \<open>/\<close> rounds to a float.
\<close>

record pay_stat =
  headcount :: nat

record metric = pay_stat +
  m_employer_id :: ustring
  m_year :: int
  stayed_count :: nat
  retention_rate :: rat
  growth_median :: pyfloat

text \<open>\<open>sorted(df['year'].unique())\<close>.\<close>

definition years_of :: "'a row_scheme list \<Rightarrow> int list" where
  "years_of df = sort (remdups (map year df))"

text \<open>The groups of \<open>df.groupby(['employer_id', 'year'])\<close>, in key order, and the
  \<open>count\<close> of a group: its rows whose \<open>total_comp\<close> is not missing.\<close>

definition group_keys :: "'a row_scheme list \<Rightarrow> (nat \<times> int) list" where
  "group_keys df = sort (remdups (map (\<lambda>r. (employer_id r, year r)) df))"

definition pay_headcount :: "'a row_scheme list \<Rightarrow> nat \<Rightarrow> int \<Rightarrow> nat" where
  "pay_headcount df e y =
     length (filter (\<lambda>r. employer_id r = e \<and> year r = y \<and> notna (total_comp r)) df)"

definition pay_map :: "'a row_scheme list \<Rightarrow> nat \<times> int \<Rightarrow> pay_stat option" where
  "pay_map df k =
     (if k \<in> set (group_keys df) then Some \<lparr>headcount = pay_headcount df (fst k) (snd k)\<rparr>
      else None)"

text \<open>\<open>drop_duplicates(subset=['person_id', 'employer_id'], keep='first')\<close>.\<close>

fun drop_duplicates_first ::
  "(ustring \<times> nat) list \<Rightarrow> 'a row_scheme list \<Rightarrow> 'a row_scheme list" where
  "drop_duplicates_first seen [] = []"
| "drop_duplicates_first seen (r # rs) =
     (if (person_id r, employer_id r) \<in> set seen then drop_duplicates_first seen rs
      else r # drop_duplicates_first ((person_id r, employer_id r) # seen) rs)"

text \<open>
  The prior population of a year. \<open>sort_values('year', ascending=False)\<close> uses the
  default sorting kind, which does not fix the order of rows of the same year, so the
  sort is the parameter \<open>srt\<close>; \<open>sort_year_desc\<close> is the sort that keeps such rows in
  their input order.
\<close>

definition sort_year_desc :: "'a row_scheme list \<Rightarrow> 'a row_scheme list" where
  "sort_year_desc df = sort_key (\<lambda>r. - year r) df"

definition sorts_by_year_desc :: "('a row_scheme list \<Rightarrow> 'a row_scheme list) \<Rightarrow> bool" where
  "sorts_by_year_desc srt =
     (\<forall>xs. mset (srt xs) = mset xs \<and> sorted (rev (map year (srt xs))))"

definition prior_population ::
  "('a row_scheme list \<Rightarrow> 'a row_scheme list) \<Rightarrow> int list \<Rightarrow> 'a row_scheme list
     \<Rightarrow> 'a row_scheme list" where
  "prior_population srt prev_years df =
     (let prev_df = filter (\<lambda>r. year r \<in> set prev_years) df
      in drop_duplicates_first [] (srt prev_df))"

text \<open>The left join of a current row with the prior population on the two keys; the
  second component is the column \<open>total_comp_prev\<close>, missing when nothing matches.\<close>

definition left_merge ::
  "'a row_scheme list \<Rightarrow> 'a row_scheme \<Rightarrow> ('a row_scheme \<times> pyfloat) list" where
  "left_merge prev c =
     (let ms = filter (\<lambda>p. employer_id p = employer_id c \<and> person_id p = person_id c) prev
      in if ms = [] then [(c, NaN)] else map (\<lambda>p. (c, total_comp p)) ms)"

definition stayed :: "'a row_scheme \<times> pyfloat \<Rightarrow> bool" where
  "stayed m = notna (snd m)"

definition growth :: "'a row_scheme \<times> pyfloat \<Rightarrow> pyfloat" where
  "growth m = fl_div (fl_sub (total_comp (fst m)) (snd m)) (snd m)"

text \<open>\<open>curr_df.groupby('employer_id').size()\<close>: the number of rows of an employer
  in the current year. The source merges this column into the aggregates, and no entry
  of a metric record reads it.\<close>

definition curr_headcount :: "'a row_scheme list \<Rightarrow> nat \<Rightarrow> int \<Rightarrow> nat" where
  "curr_headcount df e y = length (filter (\<lambda>r. employer_id r = e \<and> year r = y) df)"

definition retention_rate_of :: "nat \<Rightarrow> nat \<Rightarrow> rat" where
  "retention_rate_of st hc = (if 0 < hc then of_nat st / of_nat hc else 0)"

text \<open>\<open>str\<close> of the employer id of a row of \<open>iterrows\<close>: the row holds integers and
  floats, so the id has become a float.\<close>

definition employer_str :: "nat \<Rightarrow> ustring" where
  "employer_str e = py_str_nat e @ of_ascii ''.0''"

definition merged_rows ::
  "('a row_scheme list \<Rightarrow> 'a row_scheme list) \<Rightarrow> 'a row_scheme list \<Rightarrow> int list \<Rightarrow> nat
     \<Rightarrow> ('a row_scheme \<times> pyfloat) list" where
  "merged_rows srt df years idx =
     (let curr_df = filter (\<lambda>r. year r = years ! idx) df;
          prev_df = prior_population srt (take idx years) df
      in concat (map (left_merge prev_df) curr_df))"

definition later_year_records ::
  "('a row_scheme list \<Rightarrow> 'a row_scheme list) \<Rightarrow> 'a row_scheme list \<Rightarrow> int list \<Rightarrow> nat
     \<Rightarrow> metric list" where
  "later_year_records srt df years idx =
     (let y = years ! idx;
          merged = merged_rows srt df years idx;
          agg = sort (remdups (map (\<lambda>m. employer_id (fst m)) merged))
      in concat (map (\<lambda>e.
           let grp = filter (\<lambda>m. employer_id (fst m) = e) merged;
               st = length (filter stayed grp);
               median_growth = py_median (map growth grp)
           in (case pay_map df (e, y) of
                 None \<Rightarrow> []
               | Some stats \<Rightarrow>
                   [\<lparr>headcount = headcount stats, m_employer_id = employer_str e, m_year = y,
                     stayed_count = st,
                     retention_rate = retention_rate_of st (headcount stats),
                     growth_median = (if notna median_growth then median_growth else Fin 0)\<rparr>]))
         agg))"

definition first_year_records :: "'a row_scheme list \<Rightarrow> int \<Rightarrow> metric list" where
  "first_year_records df y =
     map (\<lambda>k. \<lparr>headcount = pay_headcount df (fst k) (snd k),
                m_employer_id = employer_str (fst k), m_year = y,
                stayed_count = 0, retention_rate = 0, growth_median = Fin 0\<rparr>)
       (filter (\<lambda>k. snd k = y) (group_keys df))"

text \<open>The list \<open>final_records\<close> of \<open>generate_employer_metrics\<close>, which the function
  then groups by employer and writes out.\<close>

definition generate_employer_metrics ::
  "('a row_scheme list \<Rightarrow> 'a row_scheme list) \<Rightarrow> 'a row_scheme list \<Rightarrow> metric list" where
  "generate_employer_metrics srt df =
     (let years = years_of df
      in concat (map (\<lambda>idx. if 0 < idx then later_year_records srt df years idx
                             else first_year_records df (years ! idx))
           [0..<length years]))"

definition grouped_output :: "metric list \<Rightarrow> ustring \<Rightarrow> metric list" where
  "grouped_output final_records eid = filter (\<lambda>rec. m_employer_id rec = eid) final_records"

text \<open>Sample fact rows.\<close>

definition fact_row :: "string \<Rightarrow> nat \<Rightarrow> int \<Rightarrow> pyfloat \<Rightarrow> row" where
  "fact_row p e y c = \<lparr>first_name = [], last_name = [], employer_id = e,
     job_family = [], year = y, total_comp = c, name_clean = [], name_freq = 0,
     match_confidence = [], person_id = of_ascii p\<rparr>"

text \<open>The two join keys of a row.\<close>

definition pair_key :: "'a row_scheme \<Rightarrow> ustring \<times> nat" where
  "pair_key r = (person_id r, employer_id r)"


text \<open>Ten employees of employer 5 in 2001, four of whom were there in 2000.\<close>

definition retention_rows :: "row list" where
  "retention_rows =
     map (\<lambda>p. fact_row p 5 2000 (Fin 100)) [''1'', ''2'', ''3'', ''4''] @
     map (\<lambda>p. fact_row p 5 2001 (Fin 110)) [''1'', ''2'', ''3'', ''4''] @
     map (\<lambda>p. fact_row p 5 2001 (Fin 100)) [''5'', ''6'', ''7'', ''8'', ''9'', ''10'']"


text \<open>A person whose pay in the prior year is zero.\<close>

definition zero_prior_rows :: "row list" where
  "zero_prior_rows = [fact_row ''3'' 6 2000 (Fin 0), fact_row ''3'' 6 2001 (Fin 50)]"

text \<open>Two employees who stay, one of them with a missing \<open>total_comp\<close> in 2001.\<close>

definition missing_comp_rows :: "row list" where
  "missing_comp_rows = [fact_row ''1'' 5 2000 (Fin 100), fact_row ''2'' 5 2000 (Fin 100),
                        fact_row ''1'' 5 2001 (Fin 110), fact_row ''2'' 5 2001 NaN]"


section \<open>ingest.py\<close>

text \<open>
  A cell of a currency column as \<open>read_csv\<close> delivers it: a string, or a number. An
  empty cell and the default missing-value markers of \<open>read_csv\<close> (\<open>N/A\<close>, \<open>NA\<close>,
  \<open>NULL\<close>, \<open>nan\<close> and the like) arrive as the number NaN, never as strings. The
  built-in conversion \<open>float\<close> of a string is the parameter \<open>pf\<close> of the functions
  below, with \<open>None\<close> where it raises \<open>ValueError\<close>.
\<close>

datatype cell = CStr ustring | CNum pyfloat

datatype py_error = ValueError

definition currency_text :: "unicode \<Rightarrow> ustring \<Rightarrow> ustring" where
  "currency_text U x = py_strip U (py_replace [44] [] (py_replace [36] [] x))"

definition clean_currency ::
  "(ustring \<Rightarrow> pyfloat option) \<Rightarrow> unicode \<Rightarrow> cell \<Rightarrow> py_error + pyfloat" where
  "clean_currency pf U x =
     (case x of
        CStr s \<Rightarrow>
          (let t = currency_text U s
           in if t = [45] \<or> t = [] then Inr (Fin 0)
              else (case pf t of None \<Rightarrow> Inl ValueError | Some f \<Rightarrow> Inr f))
      | CNum f \<Rightarrow> Inr f)"





















section \<open>Properties of the string operations and the normalizers\<close>

lemma split_from_tokens:
  "(\<forall>c\<in>set cur. \<not> sp c) \<Longrightarrow> t \<in> set (split_from sp cur s) \<Longrightarrow>
     solid sp t \<and> set t \<subseteq> set cur \<union> set s"
proof (induction s arbitrary: cur)
  case Nil
  then show ?case by (auto simp: solid_def split: if_splits)
next
  case (Cons c cs)
  show ?case
  proof (cases "sp c")
    case True
    show ?thesis
    proof (cases "t = cur \<and> cur \<noteq> []")
      case True
      then show ?thesis using Cons.prems by (auto simp: solid_def)
    next
      case False
      with \<open>sp c\<close> Cons.prems have "t \<in> set (split_from sp [] cs)"
        by (auto split: if_splits)
      from Cons.IH [OF _ this] show ?thesis by auto
    qed
  next
    case False
    with Cons.prems have "t \<in> set (split_from sp (cur @ [c]) cs)" by simp
    moreover have "\<forall>x\<in>set (cur @ [c]). \<not> sp x" using False Cons.prems by auto
    ultimately have "solid sp t \<and> set t \<subseteq> set (cur @ [c]) \<union> set cs"
      by (rule Cons.IH [rotated])
    then show ?thesis by auto
  qed
qed

lemma concat_split_from:
  "concat (split_from sp cur s) = cur @ filter (\<lambda>c. \<not> sp c) s"
  by (induction s arbitrary: cur) auto

lemma split_from_append_solid:
  "(\<forall>c\<in>set t. \<not> sp c) \<Longrightarrow> split_from sp cur (t @ s) = split_from sp (cur @ t) s"
  by (induction t arbitrary: cur) auto

lemma split_from_join:
  "sp d \<Longrightarrow> (\<forall>t\<in>set ts. solid sp t) \<Longrightarrow> split_from sp [] (py_join [d] ts) = ts"
proof (induction "[d]" ts rule: py_join.induct)
  case 1
  then show ?case by simp
next
  case (2 x)
  then have "split_from sp [] (x @ []) = split_from sp ([] @ x) []"
    by (intro split_from_append_solid) (simp add: solid_def)
  with 2 show ?case by (simp add: solid_def)
next
  case (3 x y ys)
  then have "split_from sp [] (x @ (d # py_join [d] (y # ys)))
      = split_from sp ([] @ x) (d # py_join [d] (y # ys))"
    by (intro split_from_append_solid) (simp add: solid_def)
  with 3 show ?case by (simp add: solid_def)
qed

lemma set_py_join: "set (py_join [d] ts) \<subseteq> insert d (\<Union>t\<in>set ts. set t)"
  by (induction "[d]" ts rule: py_join.induct) auto

lemma filter_py_join:
  "filter (\<lambda>c. c \<noteq> d) (py_join [d] ts) = filter (\<lambda>c. c \<noteq> d) (concat ts)"
  by (induction "[d]" ts rule: py_join.induct) auto

lemma length_py_join_Cons:
  "length (py_join [d] (x # xs)) \<le> length x + 1 + length (py_join [d] xs)"
  by (cases xs) auto

lemma length_join_split_from:
  "length (py_join [d] (split_from sp cur s)) \<le> length cur + length s"
proof (induction s arbitrary: cur)
  case Nil
  then show ?case by simp
next
  case (Cons c cs)
  show ?case
  proof (cases "sp c \<and> cur \<noteq> []")
    case True
    have "length (py_join [d] (cur # split_from sp [] cs))
        \<le> length cur + 1 + length (py_join [d] (split_from sp [] cs))"
      by (rule length_py_join_Cons)
    also have "\<dots> \<le> length cur + 1 + (length ([]::ustring) + length cs)"
      using Cons.IH [of "[]"] by simp
    finally show ?thesis using True by simp
  next
    case False
    then show ?thesis using Cons.IH [of "[]"] Cons.IH [of "cur @ [c]"] by auto
  qed
qed

lemma py_isspace_32 [simp]: "py_isspace U 32"
  by (simp add: py_isspace_def)

lemma py_upper_id: "(\<forall>c\<in>set s. c < 97) \<Longrightarrow> py_upper U s = s"
  by (induction s) (auto simp: py_upper_def upper_cp_def)

lemma py_split_tokens:
  "t \<in> set (py_split U s) \<Longrightarrow> solid (py_isspace U) t \<and> set t \<subseteq> set s"
  using split_from_tokens [of "[]" "py_isspace U" t s] by (simp add: py_split_def)

lemma py_split_join:
  "(\<forall>t\<in>set ts. solid (py_isspace U) t) \<Longrightarrow> py_split U (py_join [32] ts) = ts"
  by (simp add: py_split_def split_from_join)

lemma emp_class_cases:
  "employer_class U c \<Longrightarrow> \<not> py_isspace U c \<Longrightarrow> emp_solid c"
  by (auto simp: employer_class_def emp_solid_def)

lemma emp_tokens:
  assumes "t \<in> set (py_split U (filter (employer_class U) s))"
  shows "solid (py_isspace U) t \<and> (\<forall>c\<in>set t. emp_solid c)"
proof -
  from py_split_tokens [OF assms]
  have 1: "solid (py_isspace U) t" and 2: "set t \<subseteq> set (filter (employer_class U) s)"
    by simp_all
  have "emp_solid c" if "c \<in> set t" for c
    using that 1 2 by (auto simp: solid_def intro: emp_class_cases)
  with 1 show ?thesis by simp
qed

lemma emp_chars:
  assumes "c \<in> set (normalize_employers_normalize_string U v)"
  shows "emp_solid c \<or> c = 32"
proof (cases v)
  case PNotStr
  with assms show ?thesis by (simp add: normalize_employers_normalize_string_def)
next
  case (PStr s)
  with assms have "c \<in> set (py_join [32]
      (py_split U (filter (employer_class U) (py_upper U s))))"
    by (simp add: normalize_employers_normalize_string_def)
  with set_py_join [of 32] have "c = 32 \<or>
      (\<exists>t\<in>set (py_split U (filter (employer_class U) (py_upper U s))). c \<in> set t)"
    by blast
  with emp_tokens show ?thesis by blast
qed

lemma normalize_employer_fixed:
  assumes "\<forall>t\<in>set ts. solid (py_isspace U) t \<and> (\<forall>c\<in>set t. emp_solid c)"
  shows "normalize_employers_normalize_string U (PStr (py_join [32] ts)) = py_join [32] ts"
proof -
  let ?r = "py_join [32] ts"
  have chars: "emp_solid c \<or> c = 32" if "c \<in> set ?r" for c
    using that set_py_join [of 32 ts] assms by blast
  have "c < 97" if "c \<in> set ?r" for c
    using chars [OF that] by (auto simp: emp_solid_def)
  then have up: "py_upper U ?r = ?r"
    by (intro py_upper_id) blast
  have "employer_class U c" if "c \<in> set ?r" for c
    using chars [OF that] by (auto simp: employer_class_def emp_solid_def)
  then have fl: "filter (employer_class U) ?r = ?r" by simp
  have sp: "py_split U ?r = ts" using assms by (simp add: py_split_join)
  show ?thesis by (simp add: normalize_employers_normalize_string_def up fl sp)
qed

lemma normalize_employer_idem:
  "normalize_employers_normalize_string U (PStr (normalize_employers_normalize_string U v))
     = normalize_employers_normalize_string U v"
proof (cases v)
  case PNotStr
  have "normalize_employers_normalize_string U (PStr (py_join [32] [])) = py_join [32] []"
    by (rule normalize_employer_fixed) simp
  with PNotStr show ?thesis by (simp add: normalize_employers_normalize_string_def)
next
  case (PStr s)
  let ?ts = "py_split U (filter (employer_class U) (py_upper U s))"
  have "normalize_employers_normalize_string U (PStr (py_join [32] ?ts)) = py_join [32] ?ts"
    by (rule normalize_employer_fixed) (use emp_tokens in blast)
  with PStr show ?thesis by (simp add: normalize_employers_normalize_string_def)
qed

lemma py_contains_set: "py_contains old s \<Longrightarrow> set old \<subseteq> set s"
proof (induction s)
  case Nil
  then show ?case by simp
next
  case (Cons c cs)
  show ?case
  proof (cases "prefix old (c # cs)")
    case True
    then show ?thesis by (rule set_mono_prefix)
  next
    case False
    with Cons have "set old \<subseteq> set cs" by simp
    then show ?thesis by auto
  qed
qed

lemma py_replace_id:
  "old \<noteq> [] \<Longrightarrow> \<not> py_contains old s \<Longrightarrow> py_replace old new s = s"
  by (induction s) auto

lemma length_py_replace_le:
  "old \<noteq> [] \<Longrightarrow> length new \<le> length old \<Longrightarrow> length (py_replace old new s) \<le> length s"
proof (induction old new s rule: py_replace.induct)
  case (1 old new)
  then show ?case by simp
next
  case (2 old new c cs)
  show ?case
  proof (cases "prefix old (c # cs)")
    case True
    then have len: "length old \<le> Suc (length cs)"
      using prefix_length_le by fastforce
    from True 2 have "length (py_replace old new (drop (length old - 1) cs))
        \<le> length (drop (length old - 1) cs)" by simp
    with len 2 True show ?thesis by simp
  next
    case False
    with 2 show ?thesis by simp
  qed
qed

lemma length_py_replace_less:
  "old \<noteq> [] \<Longrightarrow> length new < length old \<Longrightarrow> py_contains old s \<Longrightarrow>
     length (py_replace old new s) < length s"
proof (induction s)
  case Nil
  then show ?case by simp
next
  case (Cons c cs)
  show ?case
  proof (cases "prefix old (c # cs)")
    case True
    then have len: "length old \<le> Suc (length cs)"
      using prefix_length_le by fastforce
    have "length (py_replace old new (drop (length old - 1) cs))
        \<le> length (drop (length old - 1) cs)"
      using Cons.prems by (intro length_py_replace_le) simp_all
    with len Cons.prems True show ?thesis by simp
  next
    case False
    with Cons show ?thesis by simp
  qed
qed

lemma job_class_cases:
  "job_class U c \<Longrightarrow> \<not> py_isspace U c \<Longrightarrow> job_solid c"
  by (auto simp: job_class_def job_solid_def)

lemma job_tokens:
  assumes "t \<in> set (py_split U (filter (job_class U) s))"
  shows "solid (py_isspace U) t \<and> (\<forall>c\<in>set t. job_solid c)"
proof -
  from py_split_tokens [OF assms]
  have 1: "solid (py_isspace U) t" and 2: "set t \<subseteq> set (filter (job_class U) s)"
    by simp_all
  have "job_solid c" if "c \<in> set t" for c
    using that 1 2 by (auto simp: solid_def intro: job_class_cases)
  with 1 show ?thesis by simp
qed

lemma normalize_job_shape:
  "\<exists>ts. normalize_jobs_normalize_string U v = py_join [32] ts \<and>
        (\<forall>t\<in>set ts. solid (py_isspace U) t \<and> (\<forall>c\<in>set t. job_solid c))"
proof (cases v)
  case PNotStr
  have "normalize_jobs_normalize_string U PNotStr = py_join [32] []"
    by (simp add: normalize_jobs_normalize_string_def)
  with PNotStr show ?thesis by fastforce
next
  case (PStr s)
  let ?s4 = "py_replace [44] [32] (py_replace [32, 45, 32] [32]
      (py_replace [32, 47, 32] [47] (py_upper U s)))"
  let ?ts = "py_split U (filter (job_class U) ?s4)"
  have "normalize_jobs_normalize_string U v = py_join [32] ?ts"
    using PStr by (simp add: normalize_jobs_normalize_string_def)
  moreover have "\<forall>t\<in>set ?ts. solid (py_isspace U) t \<and> (\<forall>c\<in>set t. job_solid c)"
    using job_tokens by blast
  ultimately show ?thesis by blast
qed

lemma normalize_job_step:
  assumes ts: "\<forall>t\<in>set ts. solid (py_isspace U) t \<and> (\<forall>c\<in>set t. job_solid c)"
  shows "(normalize_jobs_normalize_string U (PStr (py_join [32] ts)) = py_join [32] ts)
     = (\<not> py_contains [32, 47, 32] (py_join [32] ts))"
proof -
  let ?r = "py_join [32] ts"
  have chars: "job_solid c \<or> c = 32" if "c \<in> set ?r" for c
    using that set_py_join [of 32 ts] ts by blast
  have "c < 97" if "c \<in> set ?r" for c
    using chars [OF that] by (auto simp: job_solid_def)
  then have up: "py_upper U ?r = ?r"
    by (intro py_upper_id) blast
  show ?thesis
  proof (cases "py_contains [32, 47, 32] ?r")
    case False
    have r2: "py_replace [32, 47, 32] [47] ?r = ?r"
      using False by (simp add: py_replace_id)
    have "45 \<notin> set ?r" using chars [of 45] by (auto simp: job_solid_def)
    then have "\<not> py_contains [32, 45, 32] ?r"
      using py_contains_set [of "[32, 45, 32]" ?r] by auto
    then have r3: "py_replace [32, 45, 32] [32] ?r = ?r" by (simp add: py_replace_id)
    have "44 \<notin> set ?r" using chars [of 44] by (auto simp: job_solid_def)
    then have "\<not> py_contains [44] ?r"
      using py_contains_set [of "[44]" ?r] by auto
    then have r4: "py_replace [44] [32] ?r = ?r" by (simp add: py_replace_id)
    have "job_class U c" if "c \<in> set ?r" for c
      using chars [OF that] by (auto simp: job_class_def job_solid_def)
    then have fl: "filter (job_class U) ?r = ?r" by simp
    have sp: "py_split U ?r = ts" using ts by (simp add: py_split_join)
    have "normalize_jobs_normalize_string U (PStr ?r) = ?r"
      by (simp add: normalize_jobs_normalize_string_def up r2 r3 r4 fl sp)
    with False show ?thesis by simp
  next
    case True
    let ?s2 = "py_replace [32, 47, 32] [47] ?r"
    let ?s3 = "py_replace [32, 45, 32] [32] ?s2"
    let ?s4 = "py_replace [44] [32] ?s3"
    let ?s5 = "filter (job_class U) ?s4"
    have "length ?s2 < length ?r"
      using True by (intro length_py_replace_less) simp_all
    moreover have "length ?s3 \<le> length ?s2"
      by (intro length_py_replace_le) simp_all
    moreover have "length ?s4 \<le> length ?s3"
      by (intro length_py_replace_le) simp_all
    moreover have "length ?s5 \<le> length ?s4" by simp
    moreover have "length (py_join [32] (py_split U ?s5)) \<le> length ?s5"
      using length_join_split_from [of 32 "py_isspace U" "[]" ?s5]
      by (simp add: py_split_def)
    ultimately have "length (py_join [32] (py_split U ?s5)) < length ?r" by linarith
    moreover have "normalize_jobs_normalize_string U (PStr ?r) = py_join [32] (py_split U ?s5)"
      by (simp add: normalize_jobs_normalize_string_def up)
    ultimately have "normalize_jobs_normalize_string U (PStr ?r) \<noteq> ?r" by auto
    with True show ?thesis by simp
  qed
qed

lemma normalize_job_idem_iff:
  "(normalize_jobs_normalize_string U (PStr (normalize_jobs_normalize_string U v))
      = normalize_jobs_normalize_string U v)
   = (\<not> py_contains [32, 47, 32] (normalize_jobs_normalize_string U v))"
proof -
  from normalize_job_shape [of U v] obtain ts where
    "normalize_jobs_normalize_string U v = py_join [32] ts"
    "\<forall>t\<in>set ts. solid (py_isspace U) t \<and> (\<forall>c\<in>set t. job_solid c)" by blast
  then show ?thesis using normalize_job_step [of ts U] by simp
qed

lemma join_solid_ends:
  assumes "\<forall>t\<in>set ts. solid sp t" "sp d" "py_join [d] ts \<noteq> []"
  shows "hd (py_join [d] ts) \<noteq> d \<and> last (py_join [d] ts) \<noteq> d"
  using assms
proof (induction "[d]" ts rule: py_join.induct)
  case 1
  then show ?case by simp
next
  case (2 x)
  then have "x \<noteq> []" "d \<notin> set x" by (auto simp: solid_def)
  then show ?case using hd_in_set last_in_set by fastforce
next
  case (3 x y ys)
  then have x: "x \<noteq> []" "d \<notin> set x" and y: "y \<noteq> []" by (auto simp: solid_def)
  from y have ne: "py_join [d] (y # ys) \<noteq> []" by (cases ys) auto
  with 3 have "last (py_join [d] (y # ys)) \<noteq> d" by simp
  with ne x show ?case using hd_in_set [of x] by auto
qed

lemma contains_double_skip:
  "d \<notin> set x \<Longrightarrow> py_contains [d, d] (x @ d # y) = (prefix [d] y \<or> py_contains [d, d] y)"
  by (induction x) auto

lemma join_solid_no_double:
  assumes "\<forall>t\<in>set ts. solid sp t" "sp d"
  shows "\<not> py_contains [d, d] (py_join [d] ts)"
  using assms
proof (induction "[d]" ts rule: py_join.induct)
  case 1
  then show ?case by simp
next
  case (2 x)
  then have "d \<notin> set x" by (auto simp: solid_def)
  then show ?case using py_contains_set [of "[d, d]" x] by auto
next
  case (3 x y ys)
  then have x: "d \<notin> set x" and y: "y \<noteq> []" by (auto simp: solid_def)
  from y have ne: "py_join [d] (y # ys) \<noteq> []" by (cases ys) auto
  have "hd (py_join [d] (y # ys)) \<noteq> d"
    using join_solid_ends [of "y # ys" sp d] 3 ne by simp
  with ne have "\<not> prefix [d] (py_join [d] (y # ys))"
    by (cases "py_join [d] (y # ys)") auto
  with 3 x show ?case by (simp add: contains_double_skip)
qed

lemma filter_join_solid:
  assumes "\<forall>t\<in>set ts. solid sp t" "sp d"
  shows "filter (\<lambda>c. c \<noteq> d) (py_join [d] ts) = concat ts"
proof -
  have "d \<notin> set (concat ts)" using assms by (auto simp: solid_def)
  then have "filter (\<lambda>c. c \<noteq> d) (concat ts) = concat ts"
    by (intro filter_True) auto
  then show ?thesis by (simp add: filter_py_join)
qed

section \<open>Properties of the linker\<close>


declare py_str_nat.simps [simp del]

lemma py_int_of_str: "py_int_of (py_str_nat n) = n"
proof (induction n rule: py_str_nat.induct)
  case (1 n)
  show ?case
  proof (cases "n < 10")
    case True
    then show ?thesis by (simp add: py_str_nat.simps [of n] py_int_of_def)
  next
    case False
    with 1 have "py_int_of (py_str_nat (n div 10)) = n div 10" by simp
    with False show ?thesis
      by (simp add: py_str_nat.simps [of n] py_int_of_def)
  qed
qed

lemma py_str_nat_inj: "py_str_nat m = py_str_nat n \<Longrightarrow> m = n"
  by (metis py_int_of_str)

lemma length_cumsum_from: "length (cumsum_from a xs) = length xs"
  by (induction xs arbitrary: a) auto

lemma cumsum_from_nth:
  "i < length xs \<Longrightarrow> cumsum_from a xs ! i = a + sum_list (take (Suc i) xs)"
proof (induction xs arbitrary: a i)
  case Nil
  then show ?case by simp
next
  case (Cons x xs)
  then show ?case by (cases i) (auto simp: add.assoc)
qed

lemma shift1_length: "length (shift1 xs) = length xs"
  by (simp add: shift1_def)

lemma shift1_nth:
  "i < length xs \<Longrightarrow> shift1 xs ! i = (if i = 0 then None else Some (xs ! (i - 1)))"
  by (cases i) (auto simp: shift1_def)

lemma should_link_length: "length (should_link df) = length df"
  by (simp add: should_link_def shift1_length)

lemma should_link_nth:
  assumes "i < length df"
  shows "should_link df ! i =
     (0 < i \<and> name_clean (df ! i) = name_clean (df ! (i - 1))
        \<and> employer_id (df ! i) = employer_id (df ! (i - 1))
        \<and> year (df ! i) - year (df ! (i - 1)) \<le> 2)"
proof (cases i)
  case 0
  with assms show ?thesis
    by (simp add: should_link_def shift1_length shift1_nth)
next
  case (Suc k)
  with assms show ?thesis
    by (auto simp: should_link_def shift1_length shift1_nth)
qed

lemma sum_list_indicator:
  "sum_list (map (\<lambda>b. if P b then 1 else 0) xs) = length (filter P xs)"
  by (induction xs) auto

lemma filter_index_take:
  "n \<le> length bs \<Longrightarrow> length (filter (\<lambda>j. P (bs ! j)) [0..<n]) = length (filter P (take n bs))"
proof (induction n)
  case 0
  then show ?case by simp
next
  case (Suc n)
  then have "take (Suc n) bs = take n bs @ [bs ! n]"
    by (simp add: take_Suc_conv_app_nth)
  with Suc show ?case by simp
qed

lemma person_group_id_length: "length (person_group_id df) = length df"
  by (simp add: person_group_id_def cumsum_def length_cumsum_from should_link_length)

lemma person_group_id_nth:
  assumes "i < length df"
  shows "person_group_id df ! i
     = length (filter (\<lambda>j. \<not> should_link df ! j) [0..<Suc i])"
proof -
  let ?sl = "should_link df"
  have i: "i < length ?sl" using assms by (simp add: should_link_length)
  have "person_group_id df ! i
      = sum_list (take (Suc i) (map (\<lambda>b. if \<not> b then 1 else 0) ?sl))"
    using i by (simp add: person_group_id_def cumsum_def cumsum_from_nth)
  also have "\<dots> = length (filter (\<lambda>b. \<not> b) (take (Suc i) ?sl))"
    by (simp add: take_map sum_list_indicator)
  also have "\<dots> = length (filter (\<lambda>j. \<not> ?sl ! j) [0..<Suc i])"
    using i filter_index_take [of "Suc i" ?sl "\<lambda>b. \<not> b"] by simp
  finally show ?thesis .
qed


lemma link_sorted_length: "length (link_sorted U df) = length df"
  by (simp add: link_sorted_def)

lemma fast_link_persons_length: "length (fast_link_persons U df) = length df"
  by (simp add: fast_link_persons_def Let_def person_group_id_length link_sorted_length)

lemma fast_link_persons_nth:
  assumes "i < length df"
  shows "fast_link_persons U df ! i
     = (link_sorted U df ! i)\<lparr>match_confidence := of_ascii ''High'',
          person_id := py_str_nat (person_group_id (link_sorted U df) ! i)\<rparr>"
  using assms
  by (simp add: fast_link_persons_def Let_def person_group_id_length link_sorted_length)

lemma chain_start_link:
  assumes "j < length df"
  shows "chain_start (fast_link_persons U df) j = (\<not> should_link (link_sorted U df) ! j)"
proof (cases j)
  case 0
  with assms show ?thesis
    by (simp add: chain_start_def should_link_nth link_sorted_length)
next
  case (Suc k)
  with assms have k: "k < length df" by simp
  show ?thesis
    using assms Suc
    by (simp add: chain_start_def should_link_nth link_sorted_length
        fast_link_persons_nth [OF assms, unfolded Suc] fast_link_persons_nth [OF k])
qed

lemma chain_starts_upto_link:
  assumes "i < length df"
  shows "chain_starts_upto (fast_link_persons U df) i = person_group_id (link_sorted U df) ! i"
proof -
  have "filter (chain_start (fast_link_persons U df)) [0..<Suc i]
      = filter (\<lambda>j. \<not> should_link (link_sorted U df) ! j) [0..<Suc i]"
    using assms by (intro filter_cong) (auto simp: chain_start_link)
  then show ?thesis
    using assms by (simp add: chain_starts_upto_def person_group_id_nth link_sorted_length)
qed

lemma person_id_link:
  assumes "i < length df"
  shows "person_id (fast_link_persons U df ! i)
     = py_str_nat (chain_starts_upto (fast_link_persons U df) i)"
  using assms by (simp add: fast_link_persons_nth chain_starts_upto_link)

lemma chain_starts_upto_Suc:
  "chain_starts_upto out (Suc i)
     = chain_starts_upto out i + (if chain_start out (Suc i) then 1 else 0)"
  by (simp add: chain_starts_upto_def)

lemma chain_starts_upto_mono:
  "i \<le> j \<Longrightarrow> chain_starts_upto out i \<le> chain_starts_upto out j"
proof (induction j)
  case 0
  then show ?case by simp
next
  case (Suc j)
  then show ?case
    by (cases "i = Suc j") (auto simp: chain_starts_upto_Suc)
qed

lemma same_chain_no_start:
  assumes "i < k" "k \<le> j" "chain_starts_upto out i = chain_starts_upto out j"
  shows "\<not> chain_start out k"
proof
  assume st: "chain_start out k"
  from \<open>i < k\<close> obtain k' where k: "k = Suc k'" by (cases k) auto
  with \<open>i < k\<close> have "chain_starts_upto out i \<le> chain_starts_upto out k'"
    by (intro chain_starts_upto_mono) simp
  moreover have "chain_starts_upto out k = chain_starts_upto out k' + 1"
    using st by (simp add: k chain_starts_upto_Suc)
  moreover have "chain_starts_upto out k \<le> chain_starts_upto out j"
    using \<open>k \<le> j\<close> by (rule chain_starts_upto_mono)
  ultimately show False using assms(3) by simp
qed

lemma same_chain_same_employer:
  assumes "i \<le> j" "chain_starts_upto out i = chain_starts_upto out j"
  shows "employer_id (out ! j) = employer_id (out ! i)
     \<and> name_clean (out ! j) = name_clean (out ! i)"
  using assms
proof (induction j)
  case 0
  then show ?case by simp
next
  case (Suc j)
  show ?case
  proof (cases "i = Suc j")
    case True
    then show ?thesis by simp
  next
    case False
    with Suc.prems have ij: "i \<le> j" by simp
    have ns: "\<not> chain_start out (Suc j)"
      using Suc.prems False by (intro same_chain_no_start [of i _ "Suc j"]) auto
    then have eq: "chain_starts_upto out j = chain_starts_upto out i"
      using Suc.prems by (simp add: chain_starts_upto_Suc)
    from ns have "employer_id (out ! Suc j) = employer_id (out ! j)
        \<and> name_clean (out ! Suc j) = name_clean (out ! j)"
      by (simp add: chain_start_def)
    with Suc.IH [OF ij] eq show ?thesis by simp
  qed
qed

lemma chain_starts_upto_0: "chain_starts_upto out 0 = 1"
  by (simp add: chain_starts_upto_def chain_start_def)

lemma chain_starts_upto_onto:
  "1 \<le> m \<Longrightarrow> m \<le> chain_starts_upto out n \<Longrightarrow> \<exists>i\<le>n. chain_starts_upto out i = m"
proof (induction n)
  case 0
  then show ?case by (auto simp: chain_starts_upto_0)
next
  case (Suc n)
  show ?case
  proof (cases "m \<le> chain_starts_upto out n")
    case True
    with Suc obtain i where "i \<le> n" "chain_starts_upto out i = m" by blast
    then show ?thesis by (intro exI [of _ i]) simp
  next
    case False
    with Suc.prems have "chain_starts_upto out (Suc n) = m"
      by (simp add: chain_starts_upto_Suc split: if_splits)
    then show ?thesis by blast
  qed
qed


lemma map_map2_ignore:
  assumes "length xs = length ys" "\<And>x y. g (f x y) = g x"
  shows "map g (map2 f xs ys) = map g xs"
  using assms(1) by (induction xs ys rule: list_induct2) (simp_all add: assms(2))

lemma fast_link_persons_map:
  assumes "\<And>r c p. g (r\<lparr>match_confidence := c, person_id := p\<rparr>) = g r"
  shows "map g (fast_link_persons U df) = map g (link_sorted U df)"
  unfolding fast_link_persons_def Let_def
  by (rule map_map2_ignore) (simp_all add: person_group_id_length assms)

lemma link_key_out: "map link_key (fast_link_persons U df) = map link_key (link_sorted U df)"
  by (rule fast_link_persons_map) (simp add: link_key_def)

lemma sorted_link_sorted: "sorted (map link_key (link_sorted U df))"
  by (simp add: link_sorted_def Let_def)

lemma input_columns_link_sorted:
  "mset (map input_columns (link_sorted U df)) = mset (map input_columns df)"
proof -
  let ?df1 = "map (with_name_clean U) df"
  have eq: "map input_columns (map (with_name_freq ?df1) ?df1) = map input_columns df"
    by (simp add: input_columns_def with_name_freq_def with_name_clean_def)
  have "mset (link_sorted U df) = mset (map (with_name_freq ?df1) ?df1)"
    by (simp add: link_sorted_def Let_def)
  then have "image_mset input_columns (mset (link_sorted U df))
      = image_mset input_columns (mset (map (with_name_freq ?df1) ?df1))"
    by (rule arg_cong)
  then have "mset (map input_columns (link_sorted U df))
      = mset (map input_columns (map (with_name_freq ?df1) ?df1))"
    by (simp only: mset_map)
  with eq show ?thesis by (simp only:)
qed

lemma input_columns_out:
  "mset (map input_columns (fast_link_persons U df)) = mset (map input_columns df)"
proof -
  have "map input_columns (fast_link_persons U df) = map input_columns (link_sorted U df)"
    by (rule fast_link_persons_map) (simp add: input_columns_def)
  then show ?thesis by (simp only: input_columns_link_sorted)
qed

lemma name_clean_link_sorted:
  assumes "r \<in> set (link_sorted U df)"
  shows "name_clean r = name_key U r"
proof -
  from assms obtain r0 where
    "r = with_name_freq (map (with_name_clean U) df) (with_name_clean U r0)"
    by (auto simp: link_sorted_def Let_def)
  then show ?thesis
    by (simp add: with_name_freq_def with_name_clean_def name_key_def)
qed

lemma name_clean_out:
  assumes "r \<in> set (fast_link_persons U df)"
  shows "name_clean r = name_key U r"
proof -
  from assms obtain i where i: "i < length df" and r: "r = fast_link_persons U df ! i"
    by (auto simp: in_set_conv_nth fast_link_persons_length)
  have "link_sorted U df ! i \<in> set (link_sorted U df)"
    using i by (simp add: link_sorted_length)
  from name_clean_link_sorted [OF this] show ?thesis
    using i by (simp add: r fast_link_persons_nth name_key_def)
qed

lemma person_id_eq_iff:
  assumes "i < length df" "j < length df"
  shows "(person_id (fast_link_persons U df ! i) = person_id (fast_link_persons U df ! j))
     = (chain_starts_upto (fast_link_persons U df) i
        = chain_starts_upto (fast_link_persons U df) j)"
  using assms by (auto simp: person_id_link dest: py_str_nat_inj)

lemma same_person_same_employer:
  assumes "i < length df" "j < length df"
    and "person_id (fast_link_persons U df ! i) = person_id (fast_link_persons U df ! j)"
  shows "employer_id (fast_link_persons U df ! i) = employer_id (fast_link_persons U df ! j)
     \<and> name_clean (fast_link_persons U df ! i) = name_clean (fast_link_persons U df ! j)"
proof -
  let ?out = "fast_link_persons U df"
  from assms have eq: "chain_starts_upto ?out i = chain_starts_upto ?out j"
    by (simp add: person_id_eq_iff)
  show ?thesis
  proof (cases "i \<le> j")
    case True
    from same_chain_same_employer [OF True eq] show ?thesis by simp
  next
    case False
    then have "j \<le> i" by simp
    from same_chain_same_employer [OF this eq [symmetric]] show ?thesis by simp
  qed
qed

lemma adjacent_gap_rule:
  assumes "Suc i < length df"
    and "name_clean (fast_link_persons U df ! Suc i) = name_clean (fast_link_persons U df ! i)"
    and "employer_id (fast_link_persons U df ! Suc i) = employer_id (fast_link_persons U df ! i)"
  shows "(person_id (fast_link_persons U df ! Suc i) = person_id (fast_link_persons U df ! i))
     = (year (fast_link_persons U df ! Suc i) - year (fast_link_persons U df ! i) \<le> 2)"
proof -
  let ?out = "fast_link_persons U df"
  from assms(1) have i: "i < length df" by simp
  have "chain_start ?out (Suc i) = (\<not> year (?out ! Suc i) - year (?out ! i) \<le> 2)"
    using assms(2,3) by (simp add: chain_start_def)
  then show ?thesis
    using person_id_eq_iff [OF assms(1) i, of U]
    by (auto simp: chain_starts_upto_Suc)
qed

lemma dense_person_ids:
  assumes "df \<noteq> []"
  shows "person_id ` set (fast_link_persons U df)
     = py_str_nat ` {1..chain_starts_upto (fast_link_persons U df) (length df - 1)}"
proof -
  let ?out = "fast_link_persons U df"
  let ?n = "length df - 1"
  have len: "length ?out = length df" by (rule fast_link_persons_length)
  have "chain_starts_upto ?out ` {i. i < length df} = {1..chain_starts_upto ?out ?n}"
  proof (intro equalityI subsetI)
    fix m assume "m \<in> chain_starts_upto ?out ` {i. i < length df}"
    then obtain i where i: "i < length df" and m: "m = chain_starts_upto ?out i" by blast
    have "chain_starts_upto ?out 0 \<le> m" unfolding m by (rule chain_starts_upto_mono) simp
    moreover have "m \<le> chain_starts_upto ?out ?n"
      unfolding m using i by (intro chain_starts_upto_mono) simp
    ultimately show "m \<in> {1..chain_starts_upto ?out ?n}"
      by (simp add: chain_starts_upto_0)
  next
    fix m assume "m \<in> {1..chain_starts_upto ?out ?n}"
    then obtain i where "i \<le> ?n" "chain_starts_upto ?out i = m"
      using chain_starts_upto_onto [of m ?out ?n] by auto
    moreover from this assms have "i < length df" by (cases df) auto
    ultimately show "m \<in> chain_starts_upto ?out ` {i. i < length df}" by blast
  qed
  moreover have "person_id ` set ?out
      = (\<lambda>i. py_str_nat (chain_starts_upto ?out i)) ` {i. i < length df}"
  proof -
    have "set ?out = (\<lambda>i. ?out ! i) ` {i. i < length df}"
      using len by (auto simp: set_conv_nth)
    then have "person_id ` set ?out = (\<lambda>i. person_id (?out ! i)) ` {i. i < length df}"
      by (simp add: image_image)
    also have "\<dots> = (\<lambda>i. py_str_nat (chain_starts_upto ?out i)) ` {i. i < length df}"
      by (intro image_cong) (simp_all add: person_id_link)
    finally show ?thesis .
  qed
  ultimately show ?thesis by (metis image_image)
qed

lemma columns_transfer:
  assumes "\<And>r. h r = g (input_columns r)"
  shows "mset (map h (fast_link_persons U df)) = mset (map h df)"
proof -
  have "image_mset g (mset (map input_columns (fast_link_persons U df)))
      = image_mset g (mset (map input_columns df))"
    by (simp only: input_columns_out)
  then have "mset (map (\<lambda>r. g (input_columns r)) (fast_link_persons U df))
      = mset (map (\<lambda>r. g (input_columns r)) df)"
    by (simp add: multiset.map_comp comp_def)
  then show ?thesis by (simp only: assms [symmetric])
qed

lemma mset_pair_cases:
  "{#p, q#} = {#r, s#} \<Longrightarrow> (p = r \<and> q = s) \<or> (p = s \<and> q = r)"
  by (auto simp: add_eq_conv_diff)

lemma two_record_gap_rule:
  assumes "name_key U a = name_key U b" "employer_id a = employer_id b"
  shows "(person_id (fast_link_persons U [a, b] ! 0) = person_id (fast_link_persons U [a, b] ! 1))
     = (\<bar>year a - year b\<bar> \<le> 2)"
proof -
  let ?out = "fast_link_persons U [a, b]"
  have "length ?out = Suc (Suc 0)" by (simp add: fast_link_persons_length)
  then obtain x y where out: "?out = [x, y]"
    by (auto simp: length_Suc_conv)
  have "mset (map (name_key U) ?out) = mset (map (name_key U) [a, b])"
    by (rule columns_transfer [where g = "\<lambda>(f, l, e, j, y, t, m). py_strip U (py_upper U (f @ [32] @ l))"])
      (simp add: name_key_def input_columns_def)
  then have nk: "{#name_key U x, name_key U y#} = {#name_key U a, name_key U b#}"
    unfolding out by simp
  have "mset (map employer_id ?out) = mset (map employer_id [a, b])"
    by (rule columns_transfer [where g = "\<lambda>(f, l, e, j, y, t, m). e"])
      (simp add: input_columns_def)
  then have em: "{#employer_id x, employer_id y#} = {#employer_id a, employer_id b#}"
    unfolding out by simp
  have "mset (map year ?out) = mset (map year [a, b])"
    by (rule columns_transfer [where g = "\<lambda>(f, l, e, j, y, t, m). y"])
      (simp add: input_columns_def)
  then have yr: "{#year x, year y#} = {#year a, year b#}"
    unfolding out by simp
  have "x \<in> set ?out" "y \<in> set ?out" unfolding out by simp_all
  then have nc: "name_clean x = name_key U x" "name_clean y = name_key U y"
    by (simp_all only: name_clean_out)
  have "name_key U x = name_key U a \<and> name_key U y = name_key U a"
    using mset_pair_cases [OF nk] assms(1) by auto
  with nc have names: "name_clean y = name_clean x" by simp
  have emps: "employer_id y = employer_id x"
    using mset_pair_cases [OF em] assms(2) by auto
  have "sorted (map link_key ?out)"
    by (simp only: link_key_out sorted_link_sorted)
  then have "link_key x \<le> link_key y" unfolding out by simp
  then have le: "year x \<le> year y"
    using names by (auto simp: link_key_def)
  from mset_pair_cases [OF yr] le have gap: "year y - year x = \<bar>year a - year b\<bar>" by auto
  have "(person_id (?out ! Suc 0) = person_id (?out ! 0))
      = (year (?out ! Suc 0) - year (?out ! 0) \<le> 2)"
  proof (rule adjacent_gap_rule)
    show "Suc 0 < length [a, b]" by simp
    show "name_clean (?out ! Suc 0) = name_clean (?out ! 0)" unfolding out using names by simp
    show "employer_id (?out ! Suc 0) = employer_id (?out ! 0)" unfolding out using emps by simp
  qed
  then have "(person_id y = person_id x) = (year y - year x \<le> 2)" unfolding out by simp
  then show ?thesis unfolding out using gap by auto
qed

section \<open>Properties of the cohort metrics\<close>

lemma ddf_subset: "set (drop_duplicates_first seen xs) \<subseteq> set xs"
  by (induction xs arbitrary: seen) auto

lemma ddf_not_seen: "p \<in> set (drop_duplicates_first seen xs) \<Longrightarrow> pair_key p \<notin> set seen"
proof (induction xs arbitrary: seen)
  case Nil
  then show ?case by simp
next
  case (Cons r rs)
  show ?case
  proof (cases "pair_key r \<in> set seen")
    case True
    with Cons.prems have "p \<in> set (drop_duplicates_first seen rs)"
      by (simp add: pair_key_def)
    then show ?thesis by (rule Cons.IH)
  next
    case False
    with Cons.prems have "p = r \<or> p \<in> set (drop_duplicates_first (pair_key r # seen) rs)"
      by (simp add: pair_key_def)
    then show ?thesis
    proof
      assume "p = r"
      with False show ?thesis by simp
    next
      assume "p \<in> set (drop_duplicates_first (pair_key r # seen) rs)"
      from Cons.IH [OF this] show ?thesis by simp
    qed
  qed
qed

lemma ddf_distinct: "distinct (map pair_key (drop_duplicates_first seen xs))"
proof (induction xs arbitrary: seen)
  case Nil
  then show ?case by simp
next
  case (Cons r rs)
  have "pair_key r \<notin> pair_key ` set (drop_duplicates_first (pair_key r # seen) rs)"
  proof
    assume "pair_key r \<in> pair_key ` set (drop_duplicates_first (pair_key r # seen) rs)"
    then obtain p where "p \<in> set (drop_duplicates_first (pair_key r # seen) rs)"
      "pair_key p = pair_key r" by auto
    with ddf_not_seen [of p "pair_key r # seen" rs] show False by simp
  qed
  with Cons show ?case by (simp add: pair_key_def)
qed







lemma srt_set:
  assumes "sorts_by_year_desc srt"
  shows "set (srt xs) = set xs"
  using assms by (auto simp: sorts_by_year_desc_def dest: mset_eq_setD)


lemma prior_population_distinct: "distinct (map pair_key (prior_population srt prev df))"
  by (simp add: prior_population_def Let_def ddf_distinct)

lemma prior_population_member:
  assumes "sorts_by_year_desc srt" "p \<in> set (prior_population srt prev df)"
  shows "p \<in> set df \<and> year p \<in> set prev"
proof -
  from assms(2) have "p \<in> set (srt (filter (\<lambda>r. year r \<in> set prev) df))"
    using ddf_subset by (auto simp: prior_population_def Let_def)
  then show ?thesis by (simp add: srt_set [OF assms(1)])
qed




lemma years_of_strict: "sorted_wrt (<) (years_of df)"
  by (simp add: years_of_def strict_sorted_iff)

lemma years_of_set: "set (years_of df) = year ` set df"
  by (simp add: years_of_def)



lemma group_keys_set: "set (group_keys df) = (\<lambda>r. (employer_id r, year r)) ` set df"
  by (simp add: group_keys_def)

lemma gem_member:
  "(rec \<in> set (generate_employer_metrics srt df)) =
     (\<exists>idx<length (years_of df).
        (0 < idx \<and> rec \<in> set (later_year_records srt df (years_of df) idx))
      \<or> (idx = 0 \<and> rec \<in> set (first_year_records df (years_of df ! 0))))"
proof -
  let ?f = "\<lambda>idx. if 0 < idx then later_year_records srt df (years_of df) idx
                             else first_year_records df (years_of df ! idx)"
  have "(rec \<in> set (generate_employer_metrics srt df))
      = (\<exists>idx<length (years_of df). rec \<in> set (?f idx))"
    by (auto simp: generate_employer_metrics_def Let_def)
  also have "\<dots> = (\<exists>idx<length (years_of df).
        (0 < idx \<and> rec \<in> set (later_year_records srt df (years_of df) idx))
      \<or> (idx = 0 \<and> rec \<in> set (first_year_records df (years_of df ! 0))))"
  proof (intro ex_cong1)
    fix idx
    show "(idx < length (years_of df) \<and> rec \<in> set (?f idx)) =
      (idx < length (years_of df) \<and>
        ((0 < idx \<and> rec \<in> set (later_year_records srt df (years_of df) idx))
      \<or> (idx = 0 \<and> rec \<in> set (first_year_records df (years_of df ! 0)))))"
      by (cases "idx = 0") auto
  qed
  finally show ?thesis .
qed

lemma first_year_member:
  assumes "rec \<in> set (first_year_records df y)"
  shows "m_year rec = y \<and> stayed_count rec = 0 \<and> retention_rate rec = 0
     \<and> growth_median rec = Fin 0
     \<and> (\<exists>e. (e, y) \<in> set (group_keys df) \<and> m_employer_id rec = employer_str e
          \<and> headcount rec = pay_headcount df e y)"
proof -
  from assms obtain k where k: "k \<in> set (group_keys df)" "snd k = y"
    and rec: "rec = \<lparr>headcount = pay_headcount df (fst k) (snd k),
                m_employer_id = employer_str (fst k), m_year = y,
                stayed_count = 0, retention_rate = 0, growth_median = Fin 0\<rparr>"
    by (auto simp: first_year_records_def)
  from k have "(fst k, y) \<in> set (group_keys df)" by (cases k) auto
  with k rec show ?thesis by auto
qed

lemma later_year_member:
  assumes "rec \<in> set (later_year_records srt df years idx)"
  shows "m_year rec = years ! idx
     \<and> retention_rate rec = retention_rate_of (stayed_count rec) (headcount rec)
     \<and> (\<exists>e. (e, years ! idx) \<in> set (group_keys df) \<and> m_employer_id rec = employer_str e
          \<and> headcount rec = pay_headcount df e (years ! idx)
          \<and> stayed_count rec = length (filter stayed
               (filter (\<lambda>m. employer_id (fst m) = e) (merged_rows srt df years idx)))
          \<and> growth_median rec =
               (let med = py_median (map growth
                    (filter (\<lambda>m. employer_id (fst m) = e) (merged_rows srt df years idx)))
                in if notna med then med else Fin 0))"
proof -
  let ?mg = "merged_rows srt df years idx"
  from assms obtain e where
    ein: "rec \<in> set (case pay_map df (e, years ! idx) of
        None \<Rightarrow> []
      | Some stats \<Rightarrow> [\<lparr>headcount = headcount stats, m_employer_id = employer_str e,
        m_year = years ! idx,
        stayed_count = length (filter stayed (filter (\<lambda>m. employer_id (fst m) = e) ?mg)),
        retention_rate = retention_rate_of
          (length (filter stayed (filter (\<lambda>m. employer_id (fst m) = e) ?mg))) (headcount stats),
        growth_median = (if notna (py_median (map growth
             (filter (\<lambda>m. employer_id (fst m) = e) ?mg)))
           then py_median (map growth (filter (\<lambda>m. employer_id (fst m) = e) ?mg))
           else Fin 0)\<rparr>])"
    unfolding later_year_records_def Let_def set_concat set_map by blast
  then obtain stats where st: "pay_map df (e, years ! idx) = Some stats"
    by (cases "pay_map df (e, years ! idx)") auto
  with ein have rec: "rec = \<lparr>headcount = headcount stats, m_employer_id = employer_str e,
        m_year = years ! idx,
        stayed_count = length (filter stayed (filter (\<lambda>m. employer_id (fst m) = e) ?mg)),
        retention_rate = retention_rate_of
          (length (filter stayed (filter (\<lambda>m. employer_id (fst m) = e) ?mg))) (headcount stats),
        growth_median = (if notna (py_median (map growth
             (filter (\<lambda>m. employer_id (fst m) = e) ?mg)))
           then py_median (map growth (filter (\<lambda>m. employer_id (fst m) = e) ?mg))
           else Fin 0)\<rparr>"
    by simp
  from st have "(e, years ! idx) \<in> set (group_keys df)"
    and "headcount stats = pay_headcount df e (years ! idx)"
    by (auto simp: pay_map_def split: if_splits)
  with rec show ?thesis by (auto simp: Let_def)
qed

lemma retention_rate_of_0: "retention_rate_of 0 hc = 0"
  by (simp add: retention_rate_of_def)

lemma metric_cases:
  assumes "rec \<in> set (generate_employer_metrics srt df)"
  obtains (first) "rec \<in> set (first_year_records df (years_of df ! 0))"
  | (later) idx where "0 < idx" "idx < length (years_of df)"
      "rec \<in> set (later_year_records srt df (years_of df) idx)"
  using assms unfolding gem_member by blast

lemma metric_retention:
  assumes "rec \<in> set (generate_employer_metrics srt df)"
  shows "retention_rate rec = retention_rate_of (stayed_count rec) (headcount rec)"
  using assms
proof (cases rule: metric_cases)
  case first
  from first_year_member [OF this] show ?thesis by (simp add: retention_rate_of_0)
next
  case (later idx)
  from later_year_member [OF later(3)] show ?thesis by simp
qed

lemma metric_headcount:
  assumes "rec \<in> set (generate_employer_metrics srt df)"
  shows "\<exists>r\<in>set df. m_employer_id rec = employer_str (employer_id r) \<and> m_year rec = year r
     \<and> headcount rec = pay_headcount df (employer_id r) (year r)"
proof -
  have "\<exists>e. (e, m_year rec) \<in> set (group_keys df) \<and> m_employer_id rec = employer_str e
          \<and> headcount rec = pay_headcount df e (m_year rec)"
    using assms
  proof (cases rule: metric_cases)
    case first
    from first_year_member [OF this] show ?thesis by auto
  next
    case (later idx)
    from later_year_member [OF later(3)] show ?thesis by auto
  qed
  then obtain e where e: "(e, m_year rec) \<in> set (group_keys df)"
    "m_employer_id rec = employer_str e" "headcount rec = pay_headcount df e (m_year rec)"
    by blast
  from e(1) obtain r where "r \<in> set df" "employer_id r = e" "year r = m_year rec"
    by (auto simp: group_keys_set)
  with e show ?thesis by auto
qed

lemma metric_earliest:
  assumes "rec \<in> set (generate_employer_metrics srt df)" "\<forall>r\<in>set df. m_year rec \<le> year r"
  shows "stayed_count rec = 0 \<and> retention_rate rec = 0 \<and> growth_median rec = Fin 0"
proof -
  from assms(1) obtain idx where idx: "idx < length (years_of df)"
    and c: "(0 < idx \<and> rec \<in> set (later_year_records srt df (years_of df) idx))
      \<or> (idx = 0 \<and> rec \<in> set (first_year_records df (years_of df ! 0)))"
    by (auto simp: gem_member)
  have "idx = 0"
  proof (rule ccontr)
    assume "idx \<noteq> 0"
    with c have pos: "0 < idx" and "rec \<in> set (later_year_records srt df (years_of df) idx)"
      by auto
    then have y: "m_year rec = years_of df ! idx" using later_year_member by blast
    from pos idx have "years_of df ! 0 < years_of df ! idx"
      using years_of_strict [of df] by (simp add: sorted_wrt_nth_less)
    moreover have "years_of df ! 0 \<in> year ` set df"
    proof -
      from idx have "0 < length (years_of df)" by (cases "years_of df") auto
      then have "years_of df ! 0 \<in> set (years_of df)" by (rule nth_mem)
      then show ?thesis by (simp only: years_of_set)
    qed
    ultimately show False using assms(2) y by auto
  qed
  with c show ?thesis using first_year_member by blast
qed

lemma left_merge_fst: "m \<in> set (left_merge prev c) \<Longrightarrow> fst m = c"
  by (auto simp: left_merge_def Let_def split: if_splits)

lemma left_merge_nonempty: "left_merge prev c \<noteq> []"
  by (simp add: left_merge_def Let_def)

lemma merged_employers:
  "(\<lambda>m. employer_id (fst m)) ` set (merged_rows srt df years idx)
     = employer_id ` {r \<in> set df. year r = years ! idx}"
proof (intro equalityI subsetI)
  fix e assume "e \<in> (\<lambda>m. employer_id (fst m)) ` set (merged_rows srt df years idx)"
  then obtain m c where "c \<in> set df" "year c = years ! idx"
    "m \<in> set (left_merge (prior_population srt (take idx years) df) c)" "e = employer_id (fst m)"
    by (auto simp: merged_rows_def Let_def)
  then show "e \<in> employer_id ` {r \<in> set df. year r = years ! idx}"
    using left_merge_fst by fastforce
next
  fix e assume "e \<in> employer_id ` {r \<in> set df. year r = years ! idx}"
  then obtain c where c: "c \<in> set df" "year c = years ! idx" "e = employer_id c" by auto
  let ?lm = "left_merge (prior_population srt (take idx years) df) c"
  from left_merge_nonempty obtain m where m: "m \<in> set ?lm" by (cases ?lm) auto
  with left_merge_fst have "fst m = c" by blast
  moreover from m c have "m \<in> set (merged_rows srt df years idx)"
    by (auto simp: merged_rows_def Let_def)
  ultimately show "e \<in> (\<lambda>m. employer_id (fst m)) ` set (merged_rows srt df years idx)"
    using c by force
qed

lemma metric_present:
  assumes "r \<in> set df"
  shows "\<exists>rec\<in>set (generate_employer_metrics srt df).
     m_employer_id rec = employer_str (employer_id r) \<and> m_year rec = year r"
proof -
  let ?ys = "years_of df"
  from assms have "year r \<in> set ?ys" by (simp add: years_of_set)
  then obtain idx where idx: "idx < length ?ys" "?ys ! idx = year r"
    by (auto simp: in_set_conv_nth)
  have key: "(employer_id r, year r) \<in> set (group_keys df)"
    using assms by (auto simp: group_keys_set)
  show ?thesis
  proof (cases "idx = 0")
    case True
    let ?rec = "\<lparr>headcount = pay_headcount df (employer_id r) (year r),
                m_employer_id = employer_str (employer_id r), m_year = year r,
                stayed_count = 0, retention_rate = 0, growth_median = Fin 0\<rparr>"
    have "?rec \<in> set (first_year_records df (year r))"
      using key by (force simp: first_year_records_def)
    with True idx have "?rec \<in> set (generate_employer_metrics srt df)"
      by (auto simp: gem_member)
    then show ?thesis by force
  next
    case False
    let ?mg = "merged_rows srt df ?ys idx"
    let ?e = "employer_id r"
    let ?grp = "filter (\<lambda>m. employer_id (fst m) = ?e) ?mg"
    let ?st = "length (filter stayed ?grp)"
    let ?med = "py_median (map growth ?grp)"
    let ?hc = "pay_headcount df ?e (year r)"
    let ?rec = "\<lparr>headcount = ?hc, m_employer_id = employer_str ?e, m_year = year r,
        stayed_count = ?st, retention_rate = retention_rate_of ?st ?hc,
        growth_median = (if notna ?med then ?med else Fin 0)\<rparr>"
    have "?e \<in> employer_id ` {c \<in> set df. year c = ?ys ! idx}"
      using assms idx by auto
    then have e: "?e \<in> (\<lambda>m. employer_id (fst m)) ` set ?mg"
      by (simp only: merged_employers)
    have pm: "pay_map df (?e, year r) = Some \<lparr>headcount = ?hc\<rparr>"
      using key by (simp add: pay_map_def)
    have agg: "?e \<in> set (sort (remdups (map (\<lambda>m. employer_id (fst m)) ?mg)))"
      using e by simp
    have "?rec \<in> set (case pay_map df (?e, ?ys ! idx) of
        None \<Rightarrow> []
      | Some stats \<Rightarrow> [\<lparr>headcount = headcount stats, m_employer_id = employer_str ?e,
          m_year = ?ys ! idx, stayed_count = ?st,
          retention_rate = retention_rate_of ?st (headcount stats),
          growth_median = (if notna ?med then ?med else Fin 0)\<rparr>])"
      by (simp add: idx(2) pm)
    with agg have "?rec \<in> set (later_year_records srt df ?ys idx)"
      unfolding later_year_records_def Let_def set_concat set_map by blast
    with False idx have "?rec \<in> set (generate_employer_metrics srt df)"
      by (auto simp: gem_member)
    then show ?thesis by force
  qed
qed

lemma filter_distinct_key:
  "distinct (map k xs) \<Longrightarrow> length (filter (\<lambda>p. k p = v) xs) \<le> 1"
proof (induction xs)
  case Nil
  then show ?case by simp
next
  case (Cons x xs)
  show ?case
  proof (cases "k x = v")
    case True
    from Cons.prems have "k x \<notin> k ` set xs" by simp
    with True have "\<forall>p\<in>set xs. k p \<noteq> v" by blast
    then have "filter (\<lambda>p. k p = v) xs = []" by (simp add: filter_empty_conv)
    with True show ?thesis by simp
  next
    case False
    with Cons show ?thesis by simp
  qed
qed

lemma left_merge_single:
  assumes "distinct (map pair_key prev)"
  shows "\<exists>t. left_merge prev c = [(c, t)]"
proof -
  let ?ms = "filter (\<lambda>p. employer_id p = employer_id c \<and> person_id p = person_id c) prev"
  have "?ms = filter (\<lambda>p. pair_key p = pair_key c) prev"
    by (rule filter_cong [OF refl]) (auto simp: pair_key_def)
  with filter_distinct_key [OF assms, of "pair_key c"] have "length ?ms \<le> 1" by simp
  then have "?ms = [] \<or> (\<exists>p. ?ms = [p])"
    by (cases ?ms) (auto simp: length_Suc_conv)
  then show ?thesis by (auto simp: left_merge_def Let_def)
qed

lemma merged_fst:
  assumes "distinct (map pair_key prev)"
  shows "map fst (concat (map (left_merge prev) cur_rows)) = cur_rows"
proof (induction cur_rows)
  case Nil
  then show ?case by simp
next
  case (Cons c cs)
  from left_merge_single [OF assms, of c] obtain t where "left_merge prev c = [(c, t)]" by blast
  with Cons show ?case by simp
qed

lemma merged_rows_fst:
  "map fst (merged_rows srt df years idx) = filter (\<lambda>r. year r = years ! idx) df"
  unfolding merged_rows_def Let_def
  by (rule merged_fst) (rule prior_population_distinct)

lemma merged_group_length:
  "length (filter (\<lambda>m. employer_id (fst m) = e) (merged_rows srt df years idx))
     = length (filter (\<lambda>r. employer_id r = e \<and> year r = years ! idx) df)"
proof -
  let ?mg = "merged_rows srt df years idx"
  have "length (filter (\<lambda>m. employer_id (fst m) = e) ?mg)
      = length (filter (\<lambda>r. employer_id r = e) (map fst ?mg))"
    by (simp add: filter_map comp_def)
  also have "\<dots> = length (filter (\<lambda>r. employer_id r = e \<and> year r = years ! idx) df)"
    by (simp add: merged_rows_fst conj_commute)
  finally show ?thesis .
qed

lemma stayed_count_le_current_rows:
  assumes "rec \<in> set (generate_employer_metrics srt df)"
  shows "\<exists>r\<in>set df. m_employer_id rec = employer_str (employer_id r) \<and> m_year rec = year r
     \<and> headcount rec = pay_headcount df (employer_id r) (year r)
     \<and> stayed_count rec
         \<le> length (filter (\<lambda>q. employer_id q = employer_id r \<and> year q = year r) df)"
proof -
  have "\<exists>e. (e, m_year rec) \<in> set (group_keys df) \<and> m_employer_id rec = employer_str e
          \<and> headcount rec = pay_headcount df e (m_year rec)
          \<and> stayed_count rec \<le> length (filter (\<lambda>q. employer_id q = e \<and> year q = m_year rec) df)"
    using assms
  proof (cases rule: metric_cases)
    case first
    from first_year_member [OF this] show ?thesis by auto
  next
    case (later idx)
    from later_year_member [OF later(3)] obtain e where
      e: "m_year rec = years_of df ! idx" "(e, years_of df ! idx) \<in> set (group_keys df)"
        "m_employer_id rec = employer_str e"
        "headcount rec = pay_headcount df e (years_of df ! idx)"
        "stayed_count rec = length (filter stayed
           (filter (\<lambda>m. employer_id (fst m) = e) (merged_rows srt df (years_of df) idx)))"
      by blast
    have "stayed_count rec
        \<le> length (filter (\<lambda>m. employer_id (fst m) = e) (merged_rows srt df (years_of df) idx))"
      unfolding e(5) by (rule length_filter_le)
    then have "stayed_count rec
        \<le> length (filter (\<lambda>q. employer_id q = e \<and> year q = years_of df ! idx) df)"
      by (simp only: merged_group_length)
    with e show ?thesis by auto
  qed
  then obtain e where e: "(e, m_year rec) \<in> set (group_keys df)"
    "m_employer_id rec = employer_str e" "headcount rec = pay_headcount df e (m_year rec)"
    "stayed_count rec \<le> length (filter (\<lambda>q. employer_id q = e \<and> year q = m_year rec) df)"
    by blast
  from e(1) obtain r where "r \<in> set df" "employer_id r = e" "year r = m_year rec"
    by (auto simp: group_keys_set)
  with e show ?thesis by auto
qed

lemma retention_rate_bounded:
  assumes "rec \<in> set (generate_employer_metrics srt df)"
    and "\<forall>r\<in>set df. notna (total_comp r)"
  shows "stayed_count rec \<le> headcount rec \<and> 0 \<le> retention_rate rec
     \<and> retention_rate rec \<le> 1"
proof -
  from stayed_count_le_current_rows [OF assms(1)] obtain r where
    r: "r \<in> set df" "headcount rec = pay_headcount df (employer_id r) (year r)"
      "stayed_count rec
         \<le> length (filter (\<lambda>q. employer_id q = employer_id r \<and> year q = year r) df)"
    by blast
  have "filter (\<lambda>q. employer_id q = employer_id r \<and> year q = year r \<and> notna (total_comp q)) df
      = filter (\<lambda>q. employer_id q = employer_id r \<and> year q = year r) df"
  proof (rule filter_cong [OF refl])
    fix q assume "q \<in> set df"
    with assms(2) have "notna (total_comp q)" by blast
    then show "(employer_id q = employer_id r \<and> year q = year r \<and> notna (total_comp q))
        = (employer_id q = employer_id r \<and> year q = year r)" by simp
  qed
  with r have le: "stayed_count rec \<le> headcount rec" by (simp add: pay_headcount_def)
  have "retention_rate rec = retention_rate_of (stayed_count rec) (headcount rec)"
    using assms(1) by (rule metric_retention)
  with le show ?thesis by (auto simp: retention_rate_of_def)
qed

lemma left_merge_snd:
  "m \<in> set (left_merge prev c) \<Longrightarrow> snd m = NaN \<or> (\<exists>p\<in>set prev. snd m = total_comp p)"
  by (auto simp: left_merge_def Let_def split: if_splits)

lemma merged_rows_snd:
  assumes "sorts_by_year_desc srt" "m \<in> set (merged_rows srt df years idx)"
  shows "fst m \<in> set df \<and> (snd m = NaN \<or> (\<exists>p\<in>set df. snd m = total_comp p))"
proof -
  let ?prev = "prior_population srt (take idx years) df"
  from assms(2) obtain c where c: "c \<in> set df" "m \<in> set (left_merge ?prev c)"
    by (auto simp: merged_rows_def Let_def)
  from left_merge_fst [OF c(2)] c(1) have "fst m \<in> set df" by simp
  moreover from left_merge_snd [OF c(2)]
  have "snd m = NaN \<or> (\<exists>p\<in>set df. snd m = total_comp p)"
    using prior_population_member [OF assms(1)] by blast
  ultimately show ?thesis by blast
qed

lemma growth_finite:
  assumes "\<exists>a. total_comp (fst m) = Fin a" "snd m = NaN \<or> (\<exists>b. snd m = Fin b \<and> b \<noteq> 0)"
  shows "growth m = NaN \<or> is_finite (growth m)"
proof -
  from assms(1) obtain a where a: "total_comp (fst m) = Fin a" by blast
  from assms(2) show ?thesis
  proof
    assume "snd m = NaN"
    then show ?thesis by (simp add: growth_def fl_sub_def a)
  next
    assume "\<exists>b. snd m = Fin b \<and> b \<noteq> 0"
    then obtain b where "snd m = Fin b" "b \<noteq> 0" by blast
    then show ?thesis by (simp add: growth_def fl_sub_def a is_finite_def)
  qed
qed

lemma py_median_finite:
  assumes "\<forall>x\<in>set xs. x = NaN \<or> is_finite x"
  shows "py_median xs = NaN \<or> is_finite (py_median xs)"
proof -
  let ?ys = "sort_key float_key (filter notna xs)"
  let ?n = "length (filter notna xs)"
  have len: "length ?ys = ?n" by simp
  have fin: "is_finite y" if "y \<in> set ?ys" for y
    using that assms by (auto simp: notna_def)
  show ?thesis
  proof (cases "?n = 0")
    case True
    then show ?thesis by (simp add: py_median_def Let_def)
  next
    case False
    then have n: "?n div 2 < length ?ys" "?n div 2 - 1 < length ?ys"
      unfolding len by linarith+
    from n(1) have "is_finite (?ys ! (?n div 2))" by (intro fin nth_mem)
    then obtain a where a: "?ys ! (?n div 2) = Fin a"
      by (cases "?ys ! (?n div 2)") (auto simp: is_finite_def)
    from n(2) have "is_finite (?ys ! (?n div 2 - 1))" by (intro fin nth_mem)
    then obtain b where b: "?ys ! (?n div 2 - 1) = Fin b"
      by (cases "?ys ! (?n div 2 - 1)") (auto simp: is_finite_def)
    have "py_median xs = (if odd ?n then Fin a else fl_div (fl_add (Fin a) (Fin b)) (Fin 2))"
      using False unfolding py_median_def Let_def len a b by simp
    then have "is_finite (py_median xs)" by (simp add: is_finite_def)
    then show ?thesis by simp
  qed
qed

lemma growth_median_finite:
  assumes "sorts_by_year_desc srt" "rec \<in> set (generate_employer_metrics srt df)"
    and "\<forall>r\<in>set df. \<exists>a. total_comp r = Fin a \<and> a \<noteq> 0"
  shows "is_finite (growth_median rec)"
  using assms(2)
proof (cases rule: metric_cases)
  case first
  from first_year_member [OF this] show ?thesis by (simp add: is_finite_def)
next
  case (later idx)
  from later_year_member [OF later(3)] obtain e where
    g: "growth_median rec =
         (let med = py_median (map growth
              (filter (\<lambda>m. employer_id (fst m) = e) (merged_rows srt df (years_of df) idx)))
          in if notna med then med else Fin 0)"
    by blast
  let ?grp = "filter (\<lambda>m. employer_id (fst m) = e) (merged_rows srt df (years_of df) idx)"
  have "growth m = NaN \<or> is_finite (growth m)" if "m \<in> set ?grp" for m
  proof (rule growth_finite)
    from that have m: "m \<in> set (merged_rows srt df (years_of df) idx)" by simp
    from merged_rows_snd [OF assms(1) m] assms(3)
    show "\<exists>a. total_comp (fst m) = Fin a" by blast
    from merged_rows_snd [OF assms(1) m] assms(3)
    show "snd m = NaN \<or> (\<exists>b. snd m = Fin b \<and> b \<noteq> 0)" by metis
  qed
  then have "\<forall>x\<in>set (map growth ?grp). x = NaN \<or> is_finite x" by auto
  from py_median_finite [OF this] show ?thesis
    unfolding g Let_def by (auto simp: notna_def is_finite_def)
qed

lemma pay_headcount_le_curr: "pay_headcount df e y \<le> curr_headcount df e y"
proof -
  have "filter (\<lambda>r. employer_id r = e \<and> year r = y \<and> notna (total_comp r)) df
      = filter (\<lambda>r. notna (total_comp r)) (filter (\<lambda>r. employer_id r = e \<and> year r = y) df)"
    by (induction df) auto
  then have "pay_headcount df e y
      = length (filter (\<lambda>r. notna (total_comp r))
          (filter (\<lambda>r. employer_id r = e \<and> year r = y) df))"
    by (simp only: pay_headcount_def)
  also have "\<dots> \<le> length (filter (\<lambda>r. employer_id r = e \<and> year r = y) df)"
    by (rule length_filter_le)
  finally show ?thesis by (simp only: curr_headcount_def)
qed

lemma pay_headcount_is_curr:
  assumes "\<forall>r\<in>set df. notna (total_comp r)"
  shows "pay_headcount df e y = curr_headcount df e y"
proof -
  have "filter (\<lambda>r. employer_id r = e \<and> year r = y \<and> notna (total_comp r)) df
      = filter (\<lambda>r. employer_id r = e \<and> year r = y) df"
  proof (rule filter_cong [OF refl])
    fix q assume "q \<in> set df"
    with assms have "notna (total_comp q)" by blast
    then show "(employer_id q = e \<and> year q = y \<and> notna (total_comp q))
        = (employer_id q = e \<and> year q = y)" by simp
  qed
  then show ?thesis by (simp add: pay_headcount_def curr_headcount_def)
qed


section \<open>Properties of the ingest\<close>



lemma clean_currency_parsed:
  "currency_text U s \<noteq> [45] \<Longrightarrow> currency_text U s \<noteq> [] \<Longrightarrow> pf (currency_text U s) = Some v \<Longrightarrow>
     clean_currency pf U (CStr s) = Inr v"
  by (simp add: clean_currency_def Let_def)







section \<open>The claims about the normalizers\<close>

text \<open>
  C4, as amended. \<open>normalize_string\<close> of \<open>normalize_employers.py\<close> uppercases its
  argument, drops every character outside the uppercase letters, the digits, whitespace
  and the hyphen, collapses each run of whitespace to one space and trims; it strips no
  word. So the result consists of uppercase letters, digits, hyphens and single spaces
  only, neither starts nor ends with a space, has no two spaces in a row, and its
  characters other than the space are exactly the characters of the uppercased input that
  the class keeps and that are not whitespace, in their order, split into the same words.
  A value that is not a string gives the empty string.
\<close>

theorem normalize_employer_shape:
  fixes U s
  defines "r \<equiv> normalize_employers_normalize_string U (PStr s)"
  shows "(\<forall>c\<in>set r. (65 \<le> c \<and> c \<le> 90) \<or> (48 \<le> c \<and> c \<le> 57) \<or> c = 45 \<or> c = 32)
    \<and> (r \<noteq> [] \<longrightarrow> hd r \<noteq> 32 \<and> last r \<noteq> 32)
    \<and> \<not> py_contains [32, 32] r
    \<and> filter (\<lambda>c. c \<noteq> 32) r
        = filter (\<lambda>c. employer_class U c \<and> \<not> py_isspace U c) (py_upper U s)
    \<and> py_split U r = py_split U (filter (employer_class U) (py_upper U s))
    \<and> normalize_employers_normalize_string U PNotStr = []"
proof -
  let ?ts = "py_split U (filter (employer_class U) (py_upper U s))"
  have r: "r = py_join [32] ?ts"
    by (simp add: r_def normalize_employers_normalize_string_def)
  have ts: "\<forall>t\<in>set ?ts. solid (py_isspace U) t" using emp_tokens by blast
  have a: "\<forall>c\<in>set r. (65 \<le> c \<and> c \<le> 90) \<or> (48 \<le> c \<and> c \<le> 57) \<or> c = 45 \<or> c = 32"
    using emp_chars [of _ U "PStr s"] by (auto simp: r_def emp_solid_def)
  have b: "r \<noteq> [] \<longrightarrow> hd r \<noteq> 32 \<and> last r \<noteq> 32"
    using join_solid_ends [OF ts, of 32] by (simp add: r)
  have c: "\<not> py_contains [32, 32] r"
    using join_solid_no_double [OF ts, of 32] by (simp add: r)
  have "filter (\<lambda>c. c \<noteq> 32) r = concat ?ts"
    using filter_join_solid [OF ts, of 32] by (simp add: r)
  also have "\<dots> = filter (\<lambda>c. \<not> py_isspace U c) (filter (employer_class U) (py_upper U s))"
    by (simp add: py_split_def concat_split_from)
  finally have d: "filter (\<lambda>c. c \<noteq> 32) r
        = filter (\<lambda>c. employer_class U c \<and> \<not> py_isspace U c) (py_upper U s)"
    by (simp add: conj_commute)
  have e: "py_split U r = ?ts" using ts by (simp add: r py_split_join)
  have f: "normalize_employers_normalize_string U PNotStr = []"
    by (simp add: normalize_employers_normalize_string_def)
  from a b c d e f show ?thesis by blast
qed

theorem normalize_employer_shape_witness:
  "normalize_employers_normalize_string ascii_only (PStr (of_ascii ''The Acme-Co,  Inc.''))
     = of_ascii ''THE ACME-CO INC''
   \<and> hd (of_ascii ''THE ACME-CO INC'') \<noteq> 32 \<and> last (of_ascii ''THE ACME-CO INC'') \<noteq> 32
   \<and> filter (\<lambda>c. c \<noteq> 32) (of_ascii ''THE ACME-CO INC'') = of_ascii ''THEACME-COINC''"
proof -
  let ?s = "of_ascii ''The Acme-Co,  Inc.''"
  have r: "normalize_employers_normalize_string ascii_only (PStr ?s)
      = of_ascii ''THE ACME-CO INC''"
    by code_simp
  have ne: "of_ascii ''THE ACME-CO INC'' \<noteq> []" by (simp add: of_ascii_def)
  have fl: "filter (\<lambda>c. employer_class ascii_only c \<and> \<not> py_isspace ascii_only c)
      (py_upper ascii_only ?s) = of_ascii ''THEACME-COINC''"
    by code_simp
  from normalize_employer_shape [of ascii_only ?s] show ?thesis
    unfolding r using ne fl by simp
qed

text \<open>
  C4 as stated fails: the code keeps the legal-entity words and the hyphen, which the
  normalization described by the claim removes.
\<close>

theorem normalize_employer_keeps_boilerplate:
  "normalize_employers_normalize_string ascii_only (PStr (of_ascii ''Acme Inc''))
     = of_ascii ''ACME INC''
   \<and> spec_normalize_employer ascii_only (of_ascii ''Acme Inc'') = of_ascii ''ACME''
   \<and> normalize_employers_normalize_string ascii_only (PStr (of_ascii ''Smith-Jones''))
     = of_ascii ''SMITH-JONES''
   \<and> spec_normalize_employer ascii_only (of_ascii ''Smith-Jones'') = of_ascii ''SMITHJONES''"
  by code_simp

text \<open>
  C5, as amended. For the employer variant, normalizing twice is normalizing once, for
  every argument (a string, the empty string, punctuation only, or a value that is not a
  string). For the job-title variant this holds exactly for the arguments whose
  normalized form does not contain a slash standing alone between two spaces: on such a
  form the second pass replaces \<open>' / '\<close> by \<open>'/'\<close> once more.
\<close>

theorem normalize_idempotence:
  "normalize_employers_normalize_string U (PStr (normalize_employers_normalize_string U v))
     = normalize_employers_normalize_string U v
   \<and> ((normalize_jobs_normalize_string U (PStr (normalize_jobs_normalize_string U w))
         = normalize_jobs_normalize_string U w)
       = (\<not> py_contains [32, 47, 32] (normalize_jobs_normalize_string U w)))"
  using normalize_employer_idem [of U v] normalize_job_idem_iff [of U w] by simp

theorem normalize_idempotence_witness:
  "\<not> py_contains [32, 47, 32]
       (normalize_jobs_normalize_string ascii_only (PStr (of_ascii ''Teacher, Elementary - Gr. 4'')))
   \<and> normalize_jobs_normalize_string ascii_only (PStr
       (normalize_jobs_normalize_string ascii_only (PStr (of_ascii ''Teacher, Elementary - Gr. 4''))))
     = normalize_jobs_normalize_string ascii_only (PStr (of_ascii ''Teacher, Elementary - Gr. 4''))
   \<and> normalize_jobs_normalize_string ascii_only (PStr (of_ascii ''?!''))  = []
   \<and> normalize_jobs_normalize_string ascii_only (PStr []) = []"
proof -
  let ?v = "PStr (of_ascii ''Teacher, Elementary - Gr. 4'')"
  have h: "\<not> py_contains [32, 47, 32] (normalize_jobs_normalize_string ascii_only ?v)"
    by code_simp
  have e: "normalize_jobs_normalize_string ascii_only (PStr (of_ascii ''?!''))  = []"
    "normalize_jobs_normalize_string ascii_only (PStr []) = []"
    by code_simp+
  from normalize_idempotence [of ascii_only ?v ?v] h e show ?thesis by simp
qed

text \<open>
  C5 as stated fails for the job-title variant: with two spaces on each side of the
  slash the first pass leaves \<open>'A / B'\<close>, and normalizing that gives \<open>'A/B'\<close>.
\<close>

theorem normalize_job_not_idempotent:
  "normalize_jobs_normalize_string ascii_only (PStr (of_ascii ''A  /  B'')) = of_ascii ''A / B''
   \<and> normalize_jobs_normalize_string ascii_only
       (PStr (normalize_jobs_normalize_string ascii_only (PStr (of_ascii ''A  /  B''))))
     = of_ascii ''A/B''"
  by code_simp


section \<open>The claims about the linker\<close>

text \<open>
  C1, as amended. The gap rule holds for two records that are adjacent in the scan
  order. Take a record of the output of \<open>fast_link_persons\<close> and the record just
  before it in the scan order, with the same name key and the same \<open>employer_id\<close>:
  when their years differ by exactly 2 they get the same \<open>person_id\<close>, and when they
  differ by 3 or more they get different ones, whatever the other columns hold. In
  particular, for an input of two records with the same name key and the same
  \<open>employer_id\<close>, a gap of exactly 2 years puts both into one chain and a gap of 3 or
  more splits them. Two records that are not adjacent are in one chain or not according
  to the records between them.
\<close>

theorem linker_gap_rule:
  fixes U :: unicode and df :: "'a row_scheme list" and a b :: "'a row_scheme"
  defines "out \<equiv> fast_link_persons U df" and "two \<equiv> fast_link_persons U [a, b]"
  shows "(Suc i < length out \<and> name_clean (out ! Suc i) = name_clean (out ! i)
          \<and> employer_id (out ! Suc i) = employer_id (out ! i) \<longrightarrow>
            (year (out ! Suc i) - year (out ! i) = 2 \<longrightarrow>
               person_id (out ! Suc i) = person_id (out ! i))
          \<and> (3 \<le> year (out ! Suc i) - year (out ! i) \<longrightarrow>
               person_id (out ! Suc i) \<noteq> person_id (out ! i)))
    \<and> (name_key U a = name_key U b \<and> employer_id a = employer_id b \<longrightarrow>
            (\<bar>year a - year b\<bar> = 2 \<longrightarrow> person_id (two ! 0) = person_id (two ! 1))
          \<and> (3 \<le> \<bar>year a - year b\<bar> \<longrightarrow> person_id (two ! 0) \<noteq> person_id (two ! 1)))"
proof -
  have 1: "(year (out ! Suc i) - year (out ! i) = 2 \<longrightarrow>
               person_id (out ! Suc i) = person_id (out ! i))
          \<and> (3 \<le> year (out ! Suc i) - year (out ! i) \<longrightarrow>
               person_id (out ! Suc i) \<noteq> person_id (out ! i))"
    if "Suc i < length out" "name_clean (out ! Suc i) = name_clean (out ! i)"
      "employer_id (out ! Suc i) = employer_id (out ! i)"
  proof -
    from that(1) have "Suc i < length df" by (simp add: out_def fast_link_persons_length)
    from adjacent_gap_rule [OF this, of U] that(2,3) show ?thesis
      unfolding out_def by auto
  qed
  have 2: "(\<bar>year a - year b\<bar> = 2 \<longrightarrow> person_id (two ! 0) = person_id (two ! 1))
          \<and> (3 \<le> \<bar>year a - year b\<bar> \<longrightarrow> person_id (two ! 0) \<noteq> person_id (two ! 1))"
    if "name_key U a = name_key U b" "employer_id a = employer_id b"
    using two_record_gap_rule [OF that] unfolding two_def by auto
  from 1 2 show ?thesis by blast
qed

theorem linker_gap_rule_witness:
  "person_id (fast_link_persons ascii_only gap2_rows ! Suc 0)
     = person_id (fast_link_persons ascii_only gap2_rows ! 0)
   \<and> person_id (fast_link_persons ascii_only gap3_rows ! Suc 0)
     \<noteq> person_id (fast_link_persons ascii_only gap3_rows ! 0)"
proof -
  let ?o2 = "fast_link_persons ascii_only gap2_rows"
  let ?o3 = "fast_link_persons ascii_only gap3_rows"
  have h2: "Suc 0 < length ?o2 \<and> name_clean (?o2 ! Suc 0) = name_clean (?o2 ! 0)
      \<and> employer_id (?o2 ! Suc 0) = employer_id (?o2 ! 0)
      \<and> year (?o2 ! Suc 0) - year (?o2 ! 0) = 2"
    by code_simp
  have h3: "Suc 0 < length ?o3 \<and> name_clean (?o3 ! Suc 0) = name_clean (?o3 ! 0)
      \<and> employer_id (?o3 ! Suc 0) = employer_id (?o3 ! 0)
      \<and> 3 \<le> year (?o3 ! Suc 0) - year (?o3 ! 0)"
    by code_simp
  from linker_gap_rule [where i = 0 and U = ascii_only and df = gap2_rows] h2
  have "person_id (?o2 ! Suc 0) = person_id (?o2 ! 0)" by blast
  moreover from linker_gap_rule [where i = 0 and U = ascii_only and df = gap3_rows] h3
  have "person_id (?o3 ! Suc 0) \<noteq> person_id (?o3 ! 0)" by blast
  ultimately show ?thesis by blast
qed

text \<open>
  C1 as stated fails for records that are not adjacent in the scan. With a record of
  another employer between them, two records of the same name and employer two years
  apart get different identifiers; and of three records of the same name and employer,
  each two years after the one before, the first and the last, four years apart, get
  the same identifier.
\<close>

theorem linker_gap_not_pairwise:
  "map (\<lambda>r. (name_clean r, employer_id r, year r, person_id r))
     (fast_link_persons ascii_only split_rows)
   = [(of_ascii ''JOHN SMITH'', 7, 1996, of_ascii ''1''),
      (of_ascii ''JOHN SMITH'', 8, 1997, of_ascii ''2''),
      (of_ascii ''JOHN SMITH'', 7, 1998, of_ascii ''3'')]
   \<and> map (\<lambda>r. (name_clean r, employer_id r, year r, person_id r))
     (fast_link_persons ascii_only chain_rows)
   = [(of_ascii ''JOHN SMITH'', 7, 1996, of_ascii ''1''),
      (of_ascii ''JOHN SMITH'', 7, 1998, of_ascii ''1''),
      (of_ascii ''JOHN SMITH'', 7, 2000, of_ascii ''1'')]"
  by code_simp

text \<open>
  C2. Precision of the linker. In the output of \<open>fast_link_persons\<close>, for every input,
  two records with different \<open>employer_id\<close> never have the same \<open>person_id\<close>,
  whatever their years; and two records with the same \<open>person_id\<close> have the same
  \<open>employer_id\<close> and the same name key, so a chain has one employer and one name.
\<close>

theorem linker_precision:
  fixes U :: unicode and df :: "'a row_scheme list"
  defines "out \<equiv> fast_link_persons U df"
  assumes "i < length out" "j < length out"
  shows "(employer_id (out ! i) \<noteq> employer_id (out ! j) \<longrightarrow>
            person_id (out ! i) \<noteq> person_id (out ! j))
    \<and> (person_id (out ! i) = person_id (out ! j) \<longrightarrow>
            employer_id (out ! i) = employer_id (out ! j)
          \<and> name_clean (out ! i) = name_clean (out ! j))"
proof -
  from assms have "i < length df" "j < length df"
    by (simp_all add: fast_link_persons_length)
  from same_person_same_employer [OF this, of U] show ?thesis
    unfolding out_def by blast
qed

theorem linker_precision_witness:
  "person_id (fast_link_persons ascii_only sample_rows ! 1)
     \<noteq> person_id (fast_link_persons ascii_only sample_rows ! 3)
   \<and> name_clean (fast_link_persons ascii_only sample_rows ! 1)
     = name_clean (fast_link_persons ascii_only sample_rows ! 2)"
proof -
  let ?out = "fast_link_persons ascii_only sample_rows"
  have h: "1 < length ?out" "2 < length ?out" "3 < length ?out"
    "employer_id (?out ! 1) \<noteq> employer_id (?out ! 3)"
    "person_id (?out ! 1) = person_id (?out ! 2)"
    by code_simp+
  from linker_precision [where i = 1 and j = 3 and U = ascii_only and df = sample_rows] h
  have "person_id (?out ! 1) \<noteq> person_id (?out ! 3)" by blast
  moreover from linker_precision [where i = 1 and j = 2 and U = ascii_only and df = sample_rows] h
  have "name_clean (?out ! 1) = name_clean (?out ! 2)" by blast
  ultimately show ?thesis by blast
qed

text \<open>
  C3. The output of \<open>fast_link_persons\<close> is the input, each row with its name key,
  sorted by name key, year and \<open>total_comp\<close> ascending. The \<open>person_id\<close> of the
  record at position \<open>i\<close> of this order is the decimal numeral of the number of chain
  starts at the positions up to \<open>i\<close>, where a chain start is the first record of the
  scan or a record that is not linked to the one before it; the first record of every
  name group is a chain start. The identifiers are dense: they are the numerals of
  1 up to the number of chains.
\<close>

theorem person_id_counts_chain_starts:
  fixes U :: unicode and df :: "'a row_scheme list"
  defines "out \<equiv> fast_link_persons U df"
  shows "sorted (map link_key out)
    \<and> mset (map input_columns out) = mset (map input_columns df)
    \<and> (\<forall>r\<in>set out. name_clean r = name_key U r)
    \<and> (\<forall>i<length out. person_id (out ! i) = py_str_nat (chain_starts_upto out i))
    \<and> (\<forall>j<length out. j = 0 \<or> name_clean (out ! j) \<noteq> name_clean (out ! (j - 1)) \<longrightarrow>
          chain_start out j)
    \<and> (out \<noteq> [] \<longrightarrow>
          person_id ` set out = py_str_nat ` {1..chain_starts_upto out (length out - 1)})"
proof -
  have len: "length out = length df" by (simp add: out_def fast_link_persons_length)
  have a: "sorted (map link_key out)"
    unfolding out_def by (simp only: link_key_out sorted_link_sorted)
  have b: "mset (map input_columns out) = mset (map input_columns df)"
    unfolding out_def by (rule input_columns_out)
  have c: "\<forall>r\<in>set out. name_clean r = name_key U r"
    unfolding out_def by (simp add: name_clean_out)
  have d: "\<forall>i<length out. person_id (out ! i) = py_str_nat (chain_starts_upto out i)"
    unfolding len unfolding out_def by (simp add: person_id_link)
  have e: "\<forall>j<length out. j = 0 \<or> name_clean (out ! j) \<noteq> name_clean (out ! (j - 1)) \<longrightarrow>
          chain_start out j"
    by (auto simp: chain_start_def)
  have f: "out \<noteq> [] \<longrightarrow>
          person_id ` set out = py_str_nat ` {1..chain_starts_upto out (length out - 1)}"
  proof
    assume "out \<noteq> []"
    with len have "df \<noteq> []" by auto
    from dense_person_ids [OF this, of U] show
      "person_id ` set out = py_str_nat ` {1..chain_starts_upto out (length out - 1)}"
      unfolding len unfolding out_def .
  qed
  from a b c d e f show ?thesis by blast
qed

theorem person_id_counts_chain_starts_witness:
  "person_id (fast_link_persons ascii_only sample_rows ! 4) = of_ascii ''4''
   \<and> chain_starts_upto (fast_link_persons ascii_only sample_rows) 4 = 4
   \<and> chain_start (fast_link_persons ascii_only sample_rows) 1
   \<and> map person_id (fast_link_persons ascii_only sample_rows)
       = map of_ascii [''1'', ''2'', ''2'', ''3'', ''4'']"
proof -
  let ?out = "fast_link_persons ascii_only sample_rows"
  have h: "4 < length ?out" "chain_starts_upto ?out 4 = 4" "py_str_nat 4 = of_ascii ''4''"
    "1 < length ?out" "name_clean (?out ! 1) \<noteq> name_clean (?out ! (1 - 1))"
    "map person_id ?out = map of_ascii [''1'', ''2'', ''2'', ''3'', ''4'']"
    by code_simp+
  from person_id_counts_chain_starts [where U = ascii_only and df = sample_rows] h(1)
  have "person_id (?out ! 4) = py_str_nat (chain_starts_upto ?out 4)" by blast
  moreover from person_id_counts_chain_starts [where U = ascii_only and df = sample_rows] h(4,5)
  have "chain_start ?out 1" by blast
  ultimately show ?thesis using h by simp
qed


section \<open>The claims about the cohort metrics\<close>

text \<open>
  What holds of the retention fields for every fact table.
  \<open>generate_employer_metrics\<close> produces a record for every employer and year of the
  table, and every record has a \<open>retention_rate\<close> and a \<open>growth_median\<close>. In the
  records of the earliest year both are 0. In every record the \<open>retention_rate\<close> is
  \<open>stayed_count\<close> divided by the \<open>headcount\<close> entry of the record, and 0 when that
  entry is 0; the entry is the number of rows of the employer in that year whose
  \<open>total_comp\<close> is not missing, which is the number of its rows when no
  \<open>total_comp\<close> is missing (\<open>pay_headcount_is_curr\<close>).
\<close>

theorem cohort_retention_fields:
  fixes srt :: "'a row_scheme list \<Rightarrow> 'a row_scheme list" and df :: "'a row_scheme list"
  defines "out \<equiv> generate_employer_metrics srt df"
  shows "(\<forall>r\<in>set df. \<exists>rec\<in>set out.
            m_employer_id rec = employer_str (employer_id r) \<and> m_year rec = year r)
    \<and> (\<forall>rec\<in>set out. (\<forall>r\<in>set df. m_year rec \<le> year r) \<longrightarrow>
            retention_rate rec = 0 \<and> growth_median rec = Fin 0)
    \<and> (\<forall>rec\<in>set out. retention_rate rec =
            (if 0 < headcount rec then of_nat (stayed_count rec) / of_nat (headcount rec)
             else 0))
    \<and> (\<forall>rec\<in>set out. \<exists>r\<in>set df.
            m_employer_id rec = employer_str (employer_id r) \<and> m_year rec = year r
          \<and> headcount rec = pay_headcount df (employer_id r) (year r))
    \<and> retention_rate_of 4 10 = 4 / 10"
proof -
  have a: "\<forall>r\<in>set df. \<exists>rec\<in>set out.
            m_employer_id rec = employer_str (employer_id r) \<and> m_year rec = year r"
    unfolding out_def using metric_present by blast
  have b: "\<forall>rec\<in>set out. (\<forall>r\<in>set df. m_year rec \<le> year r) \<longrightarrow>
            retention_rate rec = 0 \<and> growth_median rec = Fin 0"
    unfolding out_def using metric_earliest by blast
  have c: "\<forall>rec\<in>set out. retention_rate rec =
            (if 0 < headcount rec then of_nat (stayed_count rec) / of_nat (headcount rec)
             else 0)"
    unfolding out_def using metric_retention [of _ srt df]
    by (simp add: retention_rate_of_def)
  have d: "\<forall>rec\<in>set out. \<exists>r\<in>set df.
            m_employer_id rec = employer_str (employer_id r) \<and> m_year rec = year r
          \<and> headcount rec = pay_headcount df (employer_id r) (year r)"
    unfolding out_def using metric_headcount by blast
  have e: "retention_rate_of 4 10 = 4 / 10" by (simp add: retention_rate_of_def)
  from a b c d e show ?thesis by blast
qed

theorem cohort_retention_fields_witness:
  "headcount (generate_employer_metrics sort_year_desc retention_rows ! 1) = 10
   \<and> stayed_count (generate_employer_metrics sort_year_desc retention_rows ! 1) = 4
   \<and> retention_rate (generate_employer_metrics sort_year_desc retention_rows ! 1) = 4 / 10
   \<and> retention_rate (generate_employer_metrics sort_year_desc retention_rows ! 0) = 0
   \<and> growth_median (generate_employer_metrics sort_year_desc retention_rows ! 0) = Fin 0"
proof -
  let ?out = "generate_employer_metrics sort_year_desc retention_rows"
  have len: "length ?out = 2" by code_simp
  have h: "headcount (?out ! 1) = 10" "stayed_count (?out ! 1) = 4" by code_simp+
  have first: "\<forall>r\<in>set retention_rows. m_year (?out ! 0) \<le> year r" by code_simp
  have mem: "?out ! 0 \<in> set ?out" "?out ! 1 \<in> set ?out"
    using len by simp_all
  note inst = cohort_retention_fields [where srt = sort_year_desc and df = retention_rows]
  from inst mem(2) have "retention_rate (?out ! 1) =
      (if 0 < headcount (?out ! 1)
       then of_nat (stayed_count (?out ! 1)) / of_nat (headcount (?out ! 1)) else 0)"
    by blast
  with h have 1: "retention_rate (?out ! 1) = 4 / 10" by simp
  from inst mem(1) first
  have 0: "retention_rate (?out ! 0) = 0 \<and> growth_median (?out ! 0) = Fin 0"
    by blast
  from h 0 1 show ?thesis by blast
qed

text \<open>
  C6 fails on the code, by the defect of C10. The \<open>retention_rate\<close> is
  \<open>stayed_count\<close> divided by the \<open>count\<close> of the pay statistics, which leaves out
  the rows whose \<open>total_comp\<close> is missing, and not by the employer's current-year
  headcount: here employer 5 has two rows in 2001, both employees stayed, and the
  published rate is 2 where \<open>stayed_count\<close> divided by the headcount is 1.
\<close>

theorem retention_rate_divides_by_count:
  "map (\<lambda>rec. (m_year rec, stayed_count rec,
                curr_headcount missing_comp_rows 5 (m_year rec), headcount rec,
                retention_rate rec,
                retention_rate_of (stayed_count rec)
                  (curr_headcount missing_comp_rows 5 (m_year rec))))
     (generate_employer_metrics sort_year_desc missing_comp_rows)
   = [(2000, 0, 2, 2, 0, 0), (2001, 2, 2, 1, 2, 1)]"
  by code_simp




text \<open>
  C8 fails on the code. A matched pair whose prior \<open>total_comp\<close> is 0 makes the growth
  ratio a division by zero, which numpy evaluates to infinity; the median of the group
  is then infinite, passes the \<open>notna\<close> test and is published: here the employer's
  \<open>growth_median\<close> for 2001 is \<open>+inf\<close>. When no \<open>total_comp\<close> is zero, missing or
  infinite, the published value is finite (\<open>growth_median_finite\<close>).
\<close>

theorem growth_median_infinite:
  "map (\<lambda>rec. (m_year rec, growth_median rec, is_finite (growth_median rec)))
     (generate_employer_metrics sort_year_desc zero_prior_rows)
   = [(2000, Fin 0, True), (2001, PInf, False)]"
  by code_simp

text \<open>
  C10 fails on the code. \<open>stayed_count\<close> never exceeds the number of current rows
  of the employer (\<open>stayed_count_le_current_rows\<close>), but the \<open>headcount\<close> that divides
  it is the \<open>count\<close> of the pay statistics, which leaves out the rows whose
  \<open>total_comp\<close> is missing: here two employees stayed, the headcount is 1 and the
  retention rate is 2. Without missing values the bound holds
  (\<open>retention_rate_bounded\<close>).
\<close>

theorem retention_rate_above_one:
  "map (\<lambda>rec. (m_year rec, headcount rec, stayed_count rec, retention_rate rec))
     (generate_employer_metrics sort_year_desc missing_comp_rows)
   = [(2000, 2, 0, 0), (2001, 1, 2, 2)]"
  by code_simp


section \<open>The claim about malformed currency values\<close>





end
